theory Spec2Isabelle
  imports Complex_Main
begin

section \<open>Conventions of the embedding\<close>

text \<open>
  Finite floats (prices, capital, bar timestamps) are modelled as exact rationals; the
  integer keys of the funding dictionaries as \<open>int\<close>.  A raised exception is an
  \<open>Inl\<close> value.  A calendar date string (\<open>%Y-%m-%d\<close> in the zone Asia/Shanghai, a
  fixed offset of eight hours) is represented by its day number since 1970-01-01.

  The cells of the data frame are \<open>numpy.float64\<close> values.  A division with such an
  operand does not raise on a zero divisor: it warns and gives \<open>inf\<close>, \<open>-inf\<close> or
  \<open>nan\<close> (\<open>npfloat\<close>, \<open>np_div\<close>).  Only a division of two plain Python numbers
  raises \<open>ZeroDivisionError\<close> (\<open>py_div\<close>).

  \<open>NonFinite\<close> is not an exception.  It marks the one place where an \<open>inf\<close> or
  \<open>nan\<close> would enter the ledger (a position size computed at a maximal price of
  zero): the program goes on with it, the rational ledger has no value for it, and the
  model follows that run no further.
\<close>

datatype py_error =
  TypeError | ZeroDivisionError | IndexError | ValueError | EOFError | NonFinite

datatype npfloat = Fin rat | PInf | NInf | NaN

definition np_div :: "rat \<Rightarrow> rat \<Rightarrow> npfloat" where
  \<comment> \<open>\<open>a / b\<close> with a \<open>numpy.float64\<close> operand; the zero divisor is \<open>+0.0\<close>.\<close>
  "np_div a b =
     (if b \<noteq> 0 then Fin (a / b)
      else if a > 0 then PInf else if a < 0 then NInf else NaN)"

definition np_gt :: "npfloat \<Rightarrow> rat \<Rightarrow> bool" where
  \<comment> \<open>\<open>x > c\<close>: every comparison with \<open>nan\<close> is false.\<close>
  "np_gt x c = (case x of Fin v \<Rightarrow> v > c | PInf \<Rightarrow> True | NInf \<Rightarrow> False | NaN \<Rightarrow> False)"

definition np_lt :: "npfloat \<Rightarrow> rat \<Rightarrow> bool" where
  "np_lt x c = (case x of Fin v \<Rightarrow> v < c | PInf \<Rightarrow> False | NInf \<Rightarrow> True | NaN \<Rightarrow> False)"

definition np_mul :: "npfloat \<Rightarrow> rat \<Rightarrow> npfloat" where
  \<comment> \<open>\<open>x * c\<close> for a finite \<open>c\<close>.\<close>
  "np_mul x c =
     (case x of
        Fin v \<Rightarrow> Fin (v * c)
      | PInf \<Rightarrow> (if c > 0 then PInf else if c < 0 then NInf else NaN)
      | NInf \<Rightarrow> (if c > 0 then NInf else if c < 0 then PInf else NaN)
      | NaN \<Rightarrow> NaN)"

definition bind :: "py_error + 'a \<Rightarrow> ('a \<Rightarrow> py_error + 'b) \<Rightarrow> py_error + 'b" where
  "bind m f = (case m of Inl e \<Rightarrow> Inl e | Inr x \<Rightarrow> f x)"

definition py_div :: "rat \<Rightarrow> rat \<Rightarrow> py_error + rat" where
  \<comment> \<open>\<open>a / b\<close> for two plain Python numbers (\<open>int\<close> or \<open>float\<close>): true division,
      raising on a zero divisor.\<close>
  "py_div a b = (if b = 0 then Inl ZeroDivisionError else Inr (a / b))"

definition py_int :: "rat \<Rightarrow> int" where
  \<comment> \<open>\<open>int(x)\<close>: truncation towards zero.\<close>
  "py_int x = (if 0 \<le> x then \<lfloor>x\<rfloor> else \<lceil>x\<rceil>)"

definition py_mod :: "rat \<Rightarrow> rat \<Rightarrow> rat" where
  \<comment> \<open>\<open>x % m\<close> for a positive modulus.\<close>
  "py_mod x m = x - m * of_int \<lfloor>x / m\<rfloor>"

definition py_gt :: "rat option \<Rightarrow> rat \<Rightarrow> py_error + bool" where
  \<comment> \<open>\<open>x > c\<close> where \<open>x\<close> may be \<open>None\<close>: Python 3 raises TypeError.\<close>
  "py_gt x c = (case x of None \<Rightarrow> Inl TypeError | Some v \<Rightarrow> Inr (v > c))"

definition py_lt :: "rat option \<Rightarrow> rat \<Rightarrow> py_error + bool" where
  "py_lt x c = (case x of None \<Rightarrow> Inl TypeError | Some v \<Rightarrow> Inr (v < c))"

definition truthy_ts :: "int option \<Rightarrow> bool" where
  \<comment> \<open>Truth value of an optional integer: \<open>None\<close> and \<open>0\<close> are false.\<close>
  "truthy_ts x = (case x of None \<Rightarrow> False | Some v \<Rightarrow> v \<noteq> 0)"

definition truthy_pair :: "'a \<times> 'b \<Rightarrow> bool" where
  \<comment> \<open>Truth value of a 2-tuple: a non-empty tuple is true, also \<open>(None, None)\<close>.\<close>
  "truthy_pair p = True"

section \<open>fee\_rate\_provider.py\<close>

type_synonym funding_rates = "(int \<times> rat) list"

text \<open>
  \<open>daily d\<close> stands for the dictionary \<open>get_daily_funding_rates\<close> returns for date \<open>d\<close>
  (the cache file of that date, or on a miss the two fetched windows merged and
  persisted), as its items in iteration order.  The exchange API and the file system
  behind it are outside the repository.
\<close>

type_synonym daily_rates = "int \<Rightarrow> funding_rates"

definition normalize_ts :: "rat \<Rightarrow> rat" where
  "normalize_ts timestamp =
     (if timestamp > 10 ^ 12 then of_int (py_int (timestamp / 1000)) else timestamp)"

definition date_of :: "rat \<Rightarrow> int" where
  "date_of timestamp = \<lfloor>(timestamp + 28800) / 86400\<rfloor>"

fun scan_next :: "rat \<Rightarrow> funding_rates \<Rightarrow> int option \<times> rat option \<Rightarrow> int option \<times> rat option" where
  "scan_next timestamp [] acc = acc"
| "scan_next timestamp ((ts, rate) # rest) (next_ts, next_rate) =
     (if of_int ts > timestamp \<and> (case next_ts of None \<Rightarrow> True | Some n \<Rightarrow> ts < n)
      then scan_next timestamp rest (Some ts, Some rate)
      else scan_next timestamp rest (next_ts, next_rate))"

fun scan_min :: "funding_rates \<Rightarrow> int option \<times> rat option \<Rightarrow> int option \<times> rat option" where
  "scan_min [] acc = acc"
| "scan_min ((ts, rate) # rest) (next_ts, next_rate) =
     (if (case next_ts of None \<Rightarrow> True | Some n \<Rightarrow> ts < n)
      then scan_min rest (Some ts, Some rate)
      else scan_min rest (next_ts, next_rate))"

definition get_next_funding_rate :: "daily_rates \<Rightarrow> rat \<Rightarrow> int option \<times> rat option" where
  "get_next_funding_rate daily timestamp0 =
     (let timestamp = normalize_ts timestamp0;
          date = date_of timestamp;
          (next_ts, next_rate) = scan_next timestamp (daily date) (None, None);
          (next_ts, next_rate) =
             (if next_ts = None then scan_min (daily (date + 1)) (next_ts, next_rate)
              else (next_ts, next_rate))
      in if next_ts \<noteq> None then (next_ts, next_rate) else (None, None))"

fun scan_prev :: "rat \<Rightarrow> funding_rates \<Rightarrow> int option \<times> rat option \<Rightarrow> int option \<times> rat option" where
  "scan_prev timestamp [] acc = acc"
| "scan_prev timestamp ((ts, rate) # rest) (prev_ts, prev_rate) =
     (if of_int ts < timestamp \<and> (case prev_ts of None \<Rightarrow> True | Some n \<Rightarrow> ts > n)
      then scan_prev timestamp rest (Some ts, Some rate)
      else scan_prev timestamp rest (prev_ts, prev_rate))"

fun scan_max :: "funding_rates \<Rightarrow> int option \<times> rat option \<Rightarrow> int option \<times> rat option" where
  "scan_max [] acc = acc"
| "scan_max ((ts, rate) # rest) (prev_ts, prev_rate) =
     (if (case prev_ts of None \<Rightarrow> True | Some n \<Rightarrow> ts > n)
      then scan_max rest (Some ts, Some rate)
      else scan_max rest (prev_ts, prev_rate))"

definition get_prev_funding_rate :: "daily_rates \<Rightarrow> rat \<Rightarrow> int option \<times> rat option" where
  "get_prev_funding_rate daily timestamp0 =
     (let timestamp = normalize_ts timestamp0;
          date = date_of timestamp;
          (prev_ts, prev_rate) = scan_prev timestamp (daily date) (None, None);
          (prev_ts, prev_rate) =
             (if prev_ts = None then scan_max (daily (date - 1)) (prev_ts, prev_rate)
              else (prev_ts, prev_rate))
      in if prev_ts \<noteq> None then (prev_ts, prev_rate) else (None, None))"

section \<open>trading\_signals.py\<close>

record bar =
  exchange_timestamp :: rat
  bar_swap_price :: rat
  bar_spot_price :: rat

datatype side = Long | Short

definition short_in_threshold :: rat where "short_in_threshold = 1000758 / 1000000"
definition short_out_threshold :: rat where "short_out_threshold = 999999 / 1000000"
definition long_in_threshold :: rat where "long_in_threshold = 999000 / 1000000"
definition long_out_threshold :: rat where "long_out_threshold = 1000001 / 1000000"

definition short_in_threshold_near_positive_fee :: rat where
  "short_in_threshold_near_positive_fee = 1000500 / 1000000"
definition short_out_threshold_near_positive_fee :: rat where
  "short_out_threshold_near_positive_fee = 999750 / 1000000"
definition long_in_threshold_near_negative_fee :: rat where
  "long_in_threshold_near_negative_fee = 999250 / 1000000"
definition long_out_threshold_near_negative_fee :: rat where
  "long_out_threshold_near_negative_fee = 1000250 / 1000000"

definition is_near_settlement :: "rat \<Rightarrow> bool" where
  "is_near_settlement timestamp = (py_mod timestamp 28800 > 28000)"

definition get_next_funding :: "daily_rates \<Rightarrow> rat \<Rightarrow> int option \<times> rat option" where
  "get_next_funding daily timestamp = get_next_funding_rate daily timestamp"

definition iloc_last :: "'a list \<Rightarrow> py_error + 'a" where
  \<comment> \<open>\<open>data.iloc[-1]\<close>\<close>
  "iloc_last data = (if data = [] then Inl IndexError else Inr (last data))"

definition get_entry_signal :: "daily_rates \<Rightarrow> bar list \<Rightarrow> py_error + int" where
  "get_entry_signal daily data =
     bind (iloc_last data) (\<lambda>latest_data.
       let timestamp = exchange_timestamp latest_data;
           swap_price = bar_swap_price latest_data;
           spot_price = bar_spot_price latest_data;
           ratio_short = np_div swap_price spot_price;
           ratio_long = np_div swap_price spot_price;
           near = is_near_settlement timestamp;
           next_funding = get_next_funding daily timestamp
       in if near \<and> truthy_pair next_funding then
            bind (py_gt (snd next_funding) 0) (\<lambda>positive.
              if positive then
                (if np_gt ratio_short short_in_threshold_near_positive_fee then Inr (- 1)
                 else Inr 0)
              else
                (if np_lt ratio_long long_in_threshold_near_negative_fee then Inr 1
                 else Inr 0))
          else if np_gt ratio_short short_in_threshold then Inr (- 1)
          else if np_lt ratio_long long_in_threshold then Inr 1
          else Inr 0)"

definition get_exit_signal :: "daily_rates \<Rightarrow> bar list \<Rightarrow> side \<Rightarrow> py_error + int" where
  "get_exit_signal daily data position_type =
     bind (iloc_last data) (\<lambda>latest_data.
       let timestamp = exchange_timestamp latest_data;
           swap_price = bar_swap_price latest_data;
           spot_price = bar_spot_price latest_data;
           near = is_near_settlement timestamp;
           next_funding = get_next_funding daily timestamp
       in case position_type of
            Short \<Rightarrow>
              let ratio = np_div swap_price spot_price
              in bind (if near \<and> truthy_pair next_funding then py_gt (snd next_funding) 0
                       else Inr False) (\<lambda>adjusted.
                   let threshold = (if adjusted then short_out_threshold_near_positive_fee
                                    else short_out_threshold)
                   in if np_lt ratio threshold then Inr 1 else Inr 0)
          | Long \<Rightarrow>
              let ratio = np_div swap_price spot_price
              in bind (if near \<and> truthy_pair next_funding then py_lt (snd next_funding) 0
                       else Inr False) (\<lambda>adjusted.
                   let threshold = (if adjusted then long_out_threshold_near_negative_fee
                                    else long_out_threshold)
                   in if np_gt ratio threshold then Inr 1 else Inr 0))"

section \<open>trading\_strategies.py\<close>

record position =
  position_type :: side
  entry_time :: rat
  swap_price :: rat
  spot_price :: rat
  amount :: rat
  position_id :: nat
  funding_payments :: "(rat \<times> rat) list"

definition add_funding_payment :: "position \<Rightarrow> rat \<Rightarrow> rat \<Rightarrow> position" where
  "add_funding_payment p timestamp amt =
     p\<lparr>funding_payments := funding_payments p @ [(timestamp, amt)]\<rparr>"

definition calculate_pnl :: "position \<Rightarrow> rat \<Rightarrow> rat \<Rightarrow> rat" where
  "calculate_pnl p exit_swap_price exit_spot_price =
     (if position_type p = Long
      then (exit_spot_price - spot_price p + (swap_price p - exit_swap_price)) * amount p
      else (spot_price p - exit_spot_price + (exit_swap_price - swap_price p)) * amount p)"

datatype action = Open | Close

type_synonym trade = "action \<times> side \<times> rat \<times> rat \<times> rat"

record strategy =
  initial_capital :: rat
  capital :: rat
  max_positions :: int
  fee_rate :: rat
  funding_fee_enabled :: bool
  positions :: "position list"
  closed_positions :: "position list"
  next_position_id :: nat
  total_pnl :: rat
  total_fee :: rat
  total_funding_fee :: rat
  trade_count :: nat
  win_count :: nat
  current_position_type :: "side option"
  last_entry_time :: rat
  next_funding_time :: "int option"

definition init_strategy :: "rat \<Rightarrow> int \<Rightarrow> rat \<Rightarrow> bool \<Rightarrow> strategy" where
  \<comment> \<open>\<open>TradingStratsFirst.__init__\<close>\<close>
  "init_strategy cap maxp fr enabled =
     \<lparr>initial_capital = cap, capital = cap, max_positions = maxp, fee_rate = fr,
      funding_fee_enabled = enabled, positions = [], closed_positions = [],
      next_position_id = 1, total_pnl = 0, total_fee = 0, total_funding_fee = 0,
      trade_count = 0, win_count = 0, current_position_type = None,
      last_entry_time = 0, next_funding_time = None\<rparr>"

definition get_position_size :: "strategy \<Rightarrow> py_error + rat" where
  "get_position_size st = py_div (initial_capital st) (of_int (max_positions st))"

definition can_open_position :: "strategy \<Rightarrow> side \<Rightarrow> bool" where
  "can_open_position st ptype =
     (if int (length (positions st)) \<ge> max_positions st then False
      else if current_position_type st \<noteq> None \<and> current_position_type st \<noteq> Some ptype
      then False
      else True)"

definition calculate_trade_amount :: "strategy \<Rightarrow> rat \<Rightarrow> rat \<Rightarrow> py_error + rat" where
  \<comment> \<open>\<open>position_size / max_price\<close> has a \<open>numpy.float64\<close> divisor: at a maximal price
      of zero the size is \<open>inf\<close> or \<open>nan\<close>, where the rational ledger ends\<close>
  "calculate_trade_amount st swap_p spot_p =
     bind (get_position_size st) (\<lambda>position_size.
       let max_price = max swap_p spot_p
       in case np_div position_size max_price of
            Fin amt \<Rightarrow> Inr amt
          | _ \<Rightarrow> Inl NonFinite)"

definition funding_fee_of :: "position \<Rightarrow> rat \<Rightarrow> rat" where
  "funding_fee_of p prev_rate =
     (if position_type p = Long then - swap_price p * amount p * prev_rate
      else swap_price p * amount p * prev_rate)"

definition accrue_position :: "rat \<Rightarrow> rat \<Rightarrow> position \<Rightarrow> strategy \<Rightarrow> position \<times> strategy" where
  \<comment> \<open>body of the loop of \<open>process_funding_fees\<close>\<close>
  "accrue_position timestamp prev_rate p st =
     (if entry_time p < timestamp then
        let funding_fee = funding_fee_of p prev_rate
        in (add_funding_payment p timestamp funding_fee,
            st\<lparr>capital := capital st + funding_fee,
               total_funding_fee := total_funding_fee st + funding_fee\<rparr>)
      else (p, st))"

fun accrue_all :: "rat \<Rightarrow> rat \<Rightarrow> position list \<Rightarrow> strategy \<Rightarrow> position list \<times> strategy" where
  "accrue_all timestamp prev_rate [] st = ([], st)"
| "accrue_all timestamp prev_rate (p # ps) st =
     (let (p', st') = accrue_position timestamp prev_rate p st;
          (ps', st'') = accrue_all timestamp prev_rate ps st'
      in (p' # ps', st''))"

definition process_funding_fees :: "daily_rates \<Rightarrow> strategy \<Rightarrow> rat \<Rightarrow> strategy" where
  "process_funding_fees daily st timestamp =
     (if \<not> funding_fee_enabled st \<or> positions st = [] then st
      else
        let (prev_ts, prev_rate) = get_prev_funding_rate daily timestamp
        in case (prev_ts, prev_rate) of
             (Some pts, Some rate) \<Rightarrow>
               if pts \<noteq> 0 \<and> of_int pts = timestamp then
                 let (ps', st') = accrue_all timestamp rate (positions st) st
                 in st'\<lparr>positions := ps'\<rparr>
               else st
           | _ \<Rightarrow> st)"

definition update_next_funding_time :: "daily_rates \<Rightarrow> strategy \<Rightarrow> rat \<Rightarrow> strategy" where
  "update_next_funding_time daily st timestamp =
     (if (case next_funding_time st of None \<Rightarrow> True | Some nft \<Rightarrow> timestamp \<ge> of_int nft) then
        let next_funding = get_next_funding_rate daily timestamp
        in if truthy_pair next_funding \<and> truthy_ts (fst next_funding)
           then st\<lparr>next_funding_time := fst next_funding\<rparr>
           else st
      else st)"

definition settle_close :: "strategy \<Rightarrow> position \<Rightarrow> rat \<Rightarrow> rat \<Rightarrow> trade \<times> strategy" where
  \<comment> \<open>the statements shared, line for line, by the closing branch of \<open>process_data\<close> and by
      the forced liquidation of \<open>run_single_day\<close>\<close>
  "settle_close st p swap_p spot_p =
     (let pnl = calculate_pnl p swap_p spot_p;
          fee = (swap_price p + spot_price p + swap_p + spot_p) * amount p * fee_rate st
      in ((Close, position_type p, amount p, swap_p, spot_p),
          st\<lparr>capital := capital st + (pnl - fee),
             total_pnl := total_pnl st + pnl,
             total_fee := total_fee st + fee,
             trade_count := trade_count st + 1,
             win_count := (if pnl > 0 then win_count st + 1 else win_count st),
             closed_positions := closed_positions st @ [p],
             positions := remove1 p (positions st)\<rparr>))"

definition close_position :: "strategy \<Rightarrow> position \<Rightarrow> rat \<Rightarrow> rat \<Rightarrow> trade \<times> strategy" where
  \<comment> \<open>closing branch of \<open>process_data\<close>: the direction lock is reset once no position is left\<close>
  "close_position st p swap_p spot_p =
     (let (tr, st') = settle_close st p swap_p spot_p
      in (tr, if positions st' = [] then st'\<lparr>current_position_type := None\<rparr> else st'))"

fun exit_loop ::
  "daily_rates \<Rightarrow> bar list \<Rightarrow> rat \<Rightarrow> rat \<Rightarrow> position list \<Rightarrow> trade list \<times> strategy
     \<Rightarrow> py_error + (trade list \<times> strategy)" where
  "exit_loop daily data swap_p spot_p [] (trades, st) = Inr (trades, st)"
| "exit_loop daily data swap_p spot_p (p # ps) (trades, st) =
     bind (get_exit_signal daily data (position_type p)) (\<lambda>exit_signal.
       if exit_signal > 0 then
         let (tr, st') = close_position st p swap_p spot_p
         in exit_loop daily data swap_p spot_p ps (trades @ [tr], st')
       else exit_loop daily data swap_p spot_p ps (trades, st))"

definition open_position ::
  "strategy \<Rightarrow> side \<Rightarrow> rat \<Rightarrow> rat \<Rightarrow> rat \<Rightarrow> py_error + (trade \<times> strategy)" where
  \<comment> \<open>body of \<open>if self.can_open_position(position_type)\<close> in \<open>process_data\<close>\<close>
  "open_position st ptype timestamp swap_p spot_p =
     bind (calculate_trade_amount st swap_p spot_p) (\<lambda>amt.
       let p = \<lparr>position_type = ptype, entry_time = timestamp, swap_price = swap_p,
                spot_price = spot_p, amount = amt, position_id = next_position_id st,
                funding_payments = []\<rparr>;
           fee = (swap_p + spot_p) * amt * fee_rate st
       in Inr ((Open, ptype, amt, swap_p, spot_p),
               st\<lparr>next_position_id := next_position_id st + 1,
                  capital := capital st - fee,
                  total_fee := total_fee st + fee,
                  positions := positions st @ [p],
                  current_position_type := Some ptype,
                  last_entry_time := timestamp\<rparr>))"

definition entry_step ::
  "daily_rates \<Rightarrow> bar list \<Rightarrow> rat \<Rightarrow> rat \<Rightarrow> rat \<Rightarrow> trade list \<times> strategy
     \<Rightarrow> py_error + (trade list \<times> strategy)" where
  "entry_step daily data timestamp swap_p spot_p ts =
     (let (trades, st) = ts in
      if int (length (positions st)) < max_positions st then
        bind (get_entry_signal daily data) (\<lambda>entry_signal0.
          let entry_signal1 =
                (if truthy_ts (next_funding_time st) \<and>
                    (case next_funding_time st of None \<Rightarrow> False
                     | Some nft \<Rightarrow> timestamp > of_int nft - 800)
                 then 0 else entry_signal0);
              min_entry_interval = 3600;
              entry_signal =
                (if timestamp - last_entry_time st < min_entry_interval then 0
                 else entry_signal1)
          in if entry_signal \<noteq> 0 then
               let ptype = (if entry_signal > 0 then Long else Short)
               in if can_open_position st ptype then
                    bind (open_position st ptype timestamp swap_p spot_p) (\<lambda>(tr, st').
                      Inr (trades @ [tr], st'))
                  else Inr (trades, st)
             else Inr (trades, st))
      else Inr (trades, st))"

definition process_data :: "daily_rates \<Rightarrow> strategy \<Rightarrow> bar list \<Rightarrow> py_error + (trade list \<times> strategy)" where
  "process_data daily st data =
     (if data = [] then Inr ([], st)
      else
        let latest_data = last data;
            timestamp = exchange_timestamp latest_data;
            swap_p = bar_swap_price latest_data;
            spot_p = bar_spot_price latest_data;
            st1 = process_funding_fees daily st timestamp;
            st2 = update_next_funding_time daily st1 timestamp
        in bind (exit_loop daily data swap_p spot_p (positions st2) ([], st2))
             (entry_step daily data timestamp swap_p spot_p))"

section \<open>backtester.py\<close>

fun liquidation_loop ::
  "rat \<Rightarrow> rat \<Rightarrow> rat \<Rightarrow> position list \<Rightarrow> (rat \<times> trade) list \<times> strategy
     \<Rightarrow> (rat \<times> trade) list \<times> strategy" where
  \<comment> \<open>\<open>for position in list(self.strategy.positions)\<close> of the forced liquidation\<close>
  "liquidation_loop last_timestamp last_swap last_spot [] acc = acc"
| "liquidation_loop last_timestamp last_swap last_spot (p # ps) (all_trades, st) =
     (let (tr, st') = settle_close st p last_swap last_spot
      in liquidation_loop last_timestamp last_swap last_spot ps
           (all_trades @ [(last_timestamp, tr)], st'))"

definition force_liquidate ::
  "bar list \<Rightarrow> (rat \<times> trade) list \<times> strategy \<Rightarrow> (rat \<times> trade) list \<times> strategy" where
  "force_liquidate df acc =
     (let (all_trades, st) = acc in
      if positions st \<noteq> [] then
        let last_data = last df
        in liquidation_loop (exchange_timestamp last_data) (bar_swap_price last_data)
             (bar_spot_price last_data) (positions st) (all_trades, st)
      else (all_trades, st))"

fun bar_loop ::
  "daily_rates \<Rightarrow> nat \<Rightarrow> bar list \<Rightarrow> nat list \<Rightarrow> (rat \<times> trade) list \<times> strategy
     \<Rightarrow> py_error + ((rat \<times> trade) list \<times> strategy)" where
  \<comment> \<open>\<open>for i in range(self.window_size, len(df))\<close>\<close>
  "bar_loop daily window_size df [] acc = Inr acc"
| "bar_loop daily window_size df (i # is) (all_trades, st) =
     (let window = take (window_size + 1) (drop (i - window_size) df)
      in bind (process_data daily st window) (\<lambda>(trades, st').
           bar_loop daily window_size df is
             (all_trades @ map (\<lambda>t. (exchange_timestamp (df ! i), t)) trades, st')))"

definition win_rate :: "strategy \<Rightarrow> py_error + rat" where
  \<comment> \<open>\<open>self.strategy.win_count / max(1, self.strategy.trade_count)\<close>\<close>
  "win_rate st = py_div (of_nat (win_count st)) (of_nat (max 1 (trade_count st)))"

record day_result =
  day_pnl :: rat
  day_cumulative_pnl :: rat
  day_capital :: rat
  day_trades :: "(rat \<times> trade) list"
  day_win_rate :: rat

definition run_single_day ::
  "daily_rates \<Rightarrow> nat \<Rightarrow> strategy \<Rightarrow> bar list
     \<Rightarrow> py_error + (rat \<times> day_result option \<times> strategy)" where
  \<comment> \<open>from the preprocessed frame \<open>df\<close> on; the result record is what the call appends to
      \<open>self.results\<close> (nothing for an empty frame)\<close>
  "run_single_day daily window_size st df =
     (if df = [] then Inr (0, None, st)
      else
        let start_capital = capital st
        in bind (bar_loop daily window_size df [window_size ..< length df] ([], st))
             (\<lambda>acc.
                let (all_trades, st') = force_liquidate df acc;
                    pnl = capital st' - start_capital
                in bind (win_rate st') (\<lambda>wr.
                     Inr (pnl,
                          Some \<lparr>day_pnl = pnl, day_cumulative_pnl = total_pnl st',
                                day_capital = capital st', day_trades = all_trades,
                                day_win_rate = wr\<rparr>,
                          st'))))"

fun day_loop ::
  "daily_rates \<Rightarrow> nat \<Rightarrow> bar list list \<Rightarrow> day_result list \<times> strategy
     \<Rightarrow> py_error + (day_result list \<times> strategy)" where
  \<comment> \<open>the sequential branch of \<open>run\<close>: \<open>for date in self.dates: self.run_single_day(date)\<close>,
      one preprocessed frame per date\<close>
  "day_loop daily window_size [] acc = Inr acc"
| "day_loop daily window_size (df # dfs) (results, st) =
     bind (run_single_day daily window_size st df) (\<lambda>(pnl, res, st').
       day_loop daily window_size dfs
         (case res of None \<Rightarrow> results | Some r \<Rightarrow> results @ [r], st'))"

record run_result =
  res_total_pnl :: rat
  res_total_fee :: rat
  res_total_funding_fee :: rat
  res_net_pnl :: rat
  res_annual_return :: npfloat
  res_trade_count :: nat
  res_win_rate :: rat
  res_initial_capital :: rat
  res_final_capital :: rat
  res_daily_results :: "day_result list"

definition ledger_div :: "bool \<Rightarrow> rat \<Rightarrow> rat \<Rightarrow> py_error + npfloat" where
  \<comment> \<open>\<open>a / b\<close> of two ledger numbers: numpy's rule when one of them is a
      \<open>numpy.float64\<close>, Python's when both are plain numbers\<close>
  "ledger_div numpy a b =
     (if b = 0 \<and> \<not> numpy then Inl ZeroDivisionError else Inr (np_div a b))"

text \<open>
  The ledger starts with plain Python numbers.  \<open>total_pnl\<close> becomes a
  \<open>numpy.float64\<close> with the first close (the PnL is computed from frame cells), that
  is once \<open>trade_count > 0\<close>; \<open>capital\<close> with the first entry fee, that is once
  \<open>next_position_id > 1\<close> (funding and closes need an entry before them).
\<close>

definition run ::
  "daily_rates \<Rightarrow> nat \<Rightarrow> strategy \<Rightarrow> bar list list \<Rightarrow> py_error + (run_result \<times> strategy)" where
  "run daily window_size st0 dfs =
     (if dfs = [] then Inl IndexError
      else
        let initial_cap = capital st0
        in bind (day_loop daily window_size dfs ([], st0)) (\<lambda>(results, st).
             let trading_days = of_nat (length dfs)
             in bind (ledger_div (trade_count st > 0 \<or> next_position_id st0 > 1)
                        (total_pnl st) initial_cap) (\<lambda>q1.
                bind (py_div 252 trading_days) (\<lambda>q2.
                bind (win_rate st) (\<lambda>wr.
                  Inr (\<lparr>res_total_pnl = total_pnl st, res_total_fee = total_fee st,
                        res_total_funding_fee = total_funding_fee st,
                        res_net_pnl = total_pnl st - total_fee st - total_funding_fee st,
                        res_annual_return = np_mul (np_mul q1 q2) 100,
                        res_trade_count = trade_count st, res_win_rate = wr,
                        res_initial_capital = initial_cap, res_final_capital = capital st,
                        res_daily_results = results\<rparr>, st))))))"

text \<open>
  The ledger states a run can pass through: the freshly constructed strategy, and every
  state a completed \<open>process_data\<close> call or forced liquidation leaves behind.
\<close>

inductive reachable :: "daily_rates \<Rightarrow> strategy \<Rightarrow> bool" for daily :: daily_rates where
  reach_init: "reachable daily (init_strategy cap maxp fr enabled)"
| reach_step: "reachable daily st \<Longrightarrow> process_data daily st data = Inr (trades, st')
                 \<Longrightarrow> reachable daily st'"
| reach_liquidate: "reachable daily st \<Longrightarrow> force_liquidate df (tr, st) = (tr', st')
                 \<Longrightarrow> reachable daily st'"

section \<open>market\_data\_provider.py\<close>

datatype tick_kind = Depth | Fast

record tick =
  kind :: tick_kind
  timestamp :: rat
  bid_prices :: "rat list"
  ask_prices :: "rat list"

record stream =
  reader :: "tick list"
  later_readers :: "tick list list"

text \<open>
  One side of the synchronizer: \<open>reader\<close> is what the active reader
  (\<open>self.swap_reader\<close>, \<open>self.spot_reader\<close>) has not yet delivered, \<open>later_readers\<close>
  the readers behind the current index.  The external reader is a sequence of records:
  \<open>peek\<close> is the timestamp of the next one, infinity at the end; \<open>read\<close> past the end
  is taken to raise.
\<close>

record provider =
  data_type :: string
  start_ts :: rat
  end_ts :: rat
  swap :: stream
  spot :: stream
  current_swap :: "tick option"
  last_timestamp :: "rat option"

definition fetch :: "stream \<Rightarrow> py_error + (tick \<times> stream) option" where
  "fetch s =
     (case reader s of
        t # rest \<Rightarrow> Inr (Some (t, s\<lparr>reader := rest\<rparr>))
      | [] \<Rightarrow>
         (case later_readers s of
            [] \<Rightarrow> Inr None
          | r # rs \<Rightarrow>
             (case r of
                [] \<Rightarrow> Inl EOFError
              | t # rest \<Rightarrow> Inr (Some (t, \<lparr>reader = rest, later_readers = rs\<rparr>)))))"

definition remaining :: "stream \<Rightarrow> tick list" where
  "remaining s = reader s @ concat (later_readers s)"

lemma fetch_remaining:
  "fetch s = Inr (Some (t, s')) \<Longrightarrow> remaining s = t # remaining s'"
  by (auto simp: fetch_def remaining_def split: list.splits)

lemma fetch_None: "fetch s = Inr None \<Longrightarrow> remaining s = []"
  by (auto simp: fetch_def remaining_def split: list.splits)

definition accepts :: "string \<Rightarrow> tick \<Rightarrow> bool" where
  "accepts dt t = ((dt = ''Depth'' \<and> kind t = Depth) \<or> (dt = ''Fast'' \<and> kind t = Fast))"

function read_next_valid :: "string \<Rightarrow> rat \<Rightarrow> stream \<Rightarrow> py_error + (tick option \<times> stream)" where
  "read_next_valid dt end_t s =
     (case fetch s of
        Inl e \<Rightarrow> Inl e
      | Inr None \<Rightarrow> Inr (None, s)
      | Inr (Some (data, s')) \<Rightarrow>
          if dt = ''Depth'' \<and> kind data = Depth then
            (if timestamp data > end_t then Inr (None, s') else Inr (Some data, s'))
          else if dt = ''Fast'' \<and> kind data = Fast then
            (if timestamp data > end_t then Inr (None, s') else Inr (Some data, s'))
          else read_next_valid dt end_t s')"
  by pat_completeness auto
termination
  by (relation "measure (\<lambda>(dt, e, s). length (remaining s))")
     (auto dest: fetch_remaining)

declare read_next_valid.simps [simp del]

definition read_next_valid_swap :: "provider \<Rightarrow> py_error + (tick option \<times> provider)" where
  "read_next_valid_swap p =
     bind (read_next_valid (data_type p) (end_ts p) (swap p)) (\<lambda>(r, s'). Inr (r, p\<lparr>swap := s'\<rparr>))"

definition read_next_valid_spot :: "provider \<Rightarrow> py_error + (tick option \<times> provider)" where
  "read_next_valid_spot p =
     bind (read_next_valid (data_type p) (end_ts p) (spot p)) (\<lambda>(r, s'). Inr (r, p\<lparr>spot := s'\<rparr>))"

lemma read_next_valid_length:
  "read_next_valid dt e s = Inr (r, s') \<Longrightarrow>
     length (remaining s') \<le> length (remaining s) \<and>
     (r \<noteq> None \<longrightarrow> length (remaining s') < length (remaining s))"
proof (induction dt e s rule: read_next_valid.induct)
  case (1 dt end_t s)
  show ?case
  proof (cases "fetch s")
    case (Inl a)
    with "1.prems" show ?thesis by (simp add: read_next_valid.simps)
  next
    case (Inr o1)
    show ?thesis
    proof (cases o1)
      case None
      with Inr "1.prems" show ?thesis by (auto simp: read_next_valid.simps)
    next
      case (Some a)
      obtain data s1 where a: "a = (data, s1)" by (cases a)
      have len: "length (remaining s) = Suc (length (remaining s1))"
        using fetch_remaining Inr Some a by fastforce
      show ?thesis
      proof (cases "accepts dt data")
        case True
        with "1.prems" Inr Some a have "s' = s1"
          by (auto simp: accepts_def read_next_valid.simps[of dt end_t s] split: if_splits)
        with len show ?thesis by simp
      next
        case False
        then have "read_next_valid dt end_t s = read_next_valid dt end_t s1"
          using Inr Some a by (auto simp: accepts_def read_next_valid.simps[of dt end_t s])
        with "1.prems" "1.IH"[OF Inr Some a[symmetric]] False len show ?thesis
          by (auto simp: accepts_def)
      qed
    qed
  qed
qed

lemma read_next_valid_swap_length:
  "read_next_valid_swap p = Inr (r, p') \<Longrightarrow>
     (r \<noteq> None \<longrightarrow> length (remaining (swap p')) < length (remaining (swap p)))"
  by (auto simp: read_next_valid_swap_def bind_def split: sum.splits prod.splits
           dest: read_next_valid_length)

lemma read_next_valid_swap_spot:
  "read_next_valid_swap p = Inr (r, p') \<Longrightarrow> spot p' = spot p"
  by (auto simp: read_next_valid_swap_def bind_def split: sum.splits prod.splits)

lemma read_next_valid_spot_length:
  "read_next_valid_spot p = Inr (Some t, p') \<Longrightarrow>
     length (remaining (spot p')) < length (remaining (spot p))"
  by (auto simp: read_next_valid_spot_def bind_def split: sum.splits prod.splits
           dest: read_next_valid_length)

function swap_loop :: "tick \<Rightarrow> tick option \<Rightarrow> provider \<Rightarrow> py_error + (tick option \<times> provider)" where
  "swap_loop spot_tick best_swap p =
     (case current_swap p of
        None \<Rightarrow> Inr (best_swap, p)
      | Some c \<Rightarrow>
          if timestamp c \<le> timestamp spot_tick then
            (case read_next_valid_swap p of
               Inl e \<Rightarrow> Inl e
             | Inr (nxt, p') \<Rightarrow> swap_loop spot_tick (Some c) (p'\<lparr>current_swap := nxt\<rparr>))
          else Inr (best_swap, p))"
  by pat_completeness auto
termination
  by (relation "measure (\<lambda>(t, b, p). case current_swap p of None \<Rightarrow> 0
                    | Some c \<Rightarrow> Suc (length (remaining (swap p))))")
     (auto split: option.splits dest: read_next_valid_swap_length)

declare swap_loop.simps [simp del]

lemma swap_loop_spot:
  "swap_loop t b p = Inr (r, p') \<Longrightarrow> spot p' = spot p"
proof (induction t b p rule: swap_loop.induct)
  case (1 spot_tick best_swap p)
  show ?case
  proof (cases "current_swap p")
    case None
    with "1.prems" show ?thesis by (simp add: swap_loop.simps)
  next
    case (Some c)
    show ?thesis
    proof (cases "timestamp c \<le> timestamp spot_tick")
      case False
      with Some "1.prems" show ?thesis by (simp add: swap_loop.simps)
    next
      case True
      with Some "1.prems" obtain nxt p1 where
        r: "read_next_valid_swap p = Inr (nxt, p1)"
        and l: "swap_loop spot_tick (Some c) (p1\<lparr>current_swap := nxt\<rparr>) = Inr (r, p')"
        by (auto simp: swap_loop.simps[of spot_tick best_swap p] split: sum.splits prod.splits)
      from "1.IH"[OF Some True r refl l] read_next_valid_swap_spot[OF r]
      show ?thesis by simp
    qed
  qed
qed

lemma swap_loop_after_spot:
  "read_next_valid_spot p = Inr (Some t, p1) \<Longrightarrow> swap_loop t' b p1 = Inr (r, p2)
     \<Longrightarrow> length (remaining (spot p2)) < length (remaining (spot p))"
  using swap_loop_spot[of t' b p1 r p2] read_next_valid_spot_length[of p t p1] by simp

function read_next :: "provider \<Rightarrow> py_error + ((tick \<times> tick) option \<times> provider)" where
  "read_next p =
     (case read_next_valid_spot p of
        Inl e \<Rightarrow> Inl e
      | Inr (None, p1) \<Rightarrow> Inr (None, p1)
      | Inr (Some spot_tick, p1) \<Rightarrow>
          (case current_swap p1 of
             None \<Rightarrow> read_next p1
           | Some c \<Rightarrow>
               if timestamp c > timestamp spot_tick then read_next p1
               else
                 (case swap_loop spot_tick None p1 of
                    Inl e \<Rightarrow> Inl e
                  | Inr (Some best_swap, p2) \<Rightarrow> Inr (Some (best_swap, spot_tick), p2)
                  | Inr (None, p2) \<Rightarrow> read_next p2)))"
  by pat_completeness auto
termination
  by (relation "measure (\<lambda>p. length (remaining (spot p)))")
     (auto dest: read_next_valid_spot_length swap_loop_after_spot)

declare read_next.simps [simp del]

lemma read_next_length:
  "read_next p = Inr (r, p') \<Longrightarrow>
     length (remaining (spot p')) \<le> length (remaining (spot p)) \<and>
     (r \<noteq> None \<longrightarrow> length (remaining (spot p')) < length (remaining (spot p)))"
proof (induction p rule: read_next.induct)
  case (1 p)
  note simps = read_next.simps[of p]
  show ?case
  proof (cases "read_next_valid_spot p")
    case (Inl e)
    with "1.prems" show ?thesis by (simp add: simps)
  next
    case (Inr a)
    obtain so p1 where a: "a = (so, p1)" by (cases a)
    show ?thesis
    proof (cases so)
      case None
      with Inr a "1.prems" have "p' = p1" "r = None" by (auto simp: simps)
      moreover have "spot p1 = spot p \<or> length (remaining (spot p1)) \<le> length (remaining (spot p))"
        using Inr a None
        by (auto simp: read_next_valid_spot_def bind_def split: sum.splits prod.splits
                 dest: read_next_valid_length)
      ultimately show ?thesis by auto
    next
      case (Some spot_tick)
      have lt: "length (remaining (spot p1)) < length (remaining (spot p))"
        using read_next_valid_spot_length Inr a Some by simp
      show ?thesis
      proof (cases "current_swap p1")
        case None
        with Inr a Some "1.prems" have "read_next p1 = Inr (r, p')" by (simp add: simps)
        from "1.IH"(1)[OF Inr a[symmetric] Some None this] lt show ?thesis by simp
      next
        case (Some c)
        note c = this
        show ?thesis
        proof (cases "timestamp c > timestamp spot_tick")
          case True
          with Inr a \<open>so = Some spot_tick\<close> c "1.prems" have "read_next p1 = Inr (r, p')"
            by (simp add: simps)
          from "1.IH"(2)[OF Inr a[symmetric] \<open>so = Some spot_tick\<close> c True this] lt
          show ?thesis by simp
        next
          case False
          show ?thesis
          proof (cases "swap_loop spot_tick None p1")
            case (Inl e)
            with Inr a \<open>so = Some spot_tick\<close> c False "1.prems" show ?thesis
              by (simp add: simps)
          next
            case (Inr b)
            note sl = this
            obtain bo p2 where b: "b = (bo, p2)" by (cases b)
            have sp: "spot p2 = spot p1" using swap_loop_spot sl b by blast
            show ?thesis
            proof (cases bo)
              case None
              with \<open>read_next_valid_spot p = Inr a\<close> a \<open>so = Some spot_tick\<close> c False sl b "1.prems"
              have "read_next p2 = Inr (r, p')" by (simp add: simps)
              from "1.IH"(3)[OF \<open>read_next_valid_spot p = Inr a\<close> a[symmetric]
                   \<open>so = Some spot_tick\<close> c False sl b[symmetric] None this] lt sp
              show ?thesis by simp
            next
              case (Some best)
              with \<open>read_next_valid_spot p = Inr a\<close> a \<open>so = Some spot_tick\<close> c False sl b "1.prems"
              have "p' = p2" by (simp add: simps)
              with lt sp show ?thesis by simp
            qed
          qed
        qed
      qed
    qed
  qed
qed


function interval_loop ::
  "rat \<Rightarrow> provider \<Rightarrow> py_error + ((tick \<times> tick) option \<times> provider)" where
  "interval_loop target_timestamp p =
     (case read_next p of
        Inl e \<Rightarrow> Inl e
      | Inr (None, p1) \<Rightarrow> Inr (None, p1)
      | Inr (Some (swap_tick, spot_tick), p1) \<Rightarrow>
          if timestamp swap_tick \<ge> target_timestamp
          then Inr (Some (swap_tick, spot_tick), p1\<lparr>last_timestamp := Some (timestamp swap_tick)\<rparr>)
          else interval_loop target_timestamp p1)"
  by pat_completeness auto
termination
  by (relation "measure (\<lambda>(t, p). length (remaining (spot p)))")
     (auto dest: read_next_length)

declare interval_loop.simps [simp del]

definition read_next_depth_by_interval ::
  "provider \<Rightarrow> rat \<Rightarrow> py_error + ((tick \<times> tick) option \<times> provider)" where
  "read_next_depth_by_interval p interval_ms =
     (if data_type p \<noteq> ''Depth'' then Inl ValueError
      else
        case last_timestamp p of
          None \<Rightarrow>
            (case read_next p of
               Inl e \<Rightarrow> Inl e
             | Inr (None, p1) \<Rightarrow> Inr (None, p1)
             | Inr (Some (swap_tick, spot_tick), p1) \<Rightarrow>
                 Inr (Some (swap_tick, spot_tick),
                      p1\<lparr>last_timestamp := Some (timestamp swap_tick)\<rparr>))
        | Some lt \<Rightarrow>
            let target_timestamp = lt + interval_ms / 1000
            in interval_loop target_timestamp p)"

lemma interval_loop_length:
  "interval_loop tg p = Inr (r, p') \<Longrightarrow>
     (r \<noteq> None \<longrightarrow> length (remaining (spot p')) < length (remaining (spot p)))"
proof (induction tg p rule: interval_loop.induct)
  case (1 tg p)
  show ?case
  proof (cases "read_next p")
    case (Inl e)
    with "1.prems" show ?thesis by (simp add: interval_loop.simps[of tg p])
  next
    case (Inr a)
    obtain ro p1 where a: "a = (ro, p1)" by (cases a)
    show ?thesis
    proof (cases ro)
      case None
      with Inr a "1.prems" show ?thesis by (auto simp: interval_loop.simps[of tg p])
    next
      case (Some pr)
      obtain sw sp where pr: "pr = (sw, sp)" by (cases pr)
      have lt: "length (remaining (spot p1)) < length (remaining (spot p))"
        using read_next_length[of p ro p1] Inr a Some by simp
      show ?thesis
      proof (cases "timestamp sw \<ge> tg")
        case True
        with Inr a Some pr "1.prems" lt show ?thesis
          by (auto simp: interval_loop.simps[of tg p])
      next
        case False
        with Inr a Some pr "1.prems" have "interval_loop tg p1 = Inr (r, p')"
          by (auto simp: interval_loop.simps[of tg p])
        from "1.IH"[OF Inr a[symmetric] Some pr[symmetric] False this] lt show ?thesis by auto
      qed
    qed
  qed
qed

lemma read_next_depth_by_interval_length:
  "read_next_depth_by_interval p ms = Inr (Some pr, p') \<Longrightarrow>
     length (remaining (spot p')) < length (remaining (spot p))"
  by (auto simp: read_next_depth_by_interval_def Let_def
           split: if_splits option.splits sum.splits prod.splits
           dest: read_next_length interval_loop_length)

function read_all_loop ::
  "rat \<Rightarrow> provider \<Rightarrow> (tick \<times> tick) list \<Rightarrow> py_error + ((tick \<times> tick) list \<times> provider)" where
  "read_all_loop interval_ms p rows =
     (case read_next_depth_by_interval p interval_ms of
        Inl e \<Rightarrow> Inl e
      | Inr (None, p1) \<Rightarrow> Inr (rows, p1)
      | Inr (Some pr, p1) \<Rightarrow> read_all_loop interval_ms p1 (rows @ [pr]))"
  by pat_completeness auto
termination
  by (relation "measure (\<lambda>(ms, p, rows). length (remaining (spot p)))")
     (auto dest: read_next_depth_by_interval_length)

declare read_all_loop.simps [simp del]

definition seek_to_start_time :: "provider \<Rightarrow> provider" where
  "seek_to_start_time p =
     p\<lparr>swap := (swap p)\<lparr>reader := dropWhile (\<lambda>t. timestamp t < start_ts p) (reader (swap p))\<rparr>,
       spot := (spot p)\<lparr>reader := dropWhile (\<lambda>t. timestamp t < start_ts p) (reader (spot p))\<rparr>\<rparr>"

definition read_all_depth_by_interval ::
  "provider \<Rightarrow> rat \<Rightarrow> py_error + ((tick \<times> tick) list \<times> provider)" where
  \<comment> \<open>the rows are kept as the pairs they are built from\<close>
  "read_all_depth_by_interval p interval_ms =
     (if data_type p \<noteq> ''Depth'' then Inl ValueError
      else
        let p1 = seek_to_start_time p
        in case read_next_valid_swap p1 of
             Inl e \<Rightarrow> Inl e
           | Inr (c, p2) \<Rightarrow>
               read_all_loop interval_ms (p2\<lparr>current_swap := c, last_timestamp := None\<rparr>) [])"


text \<open>
  The next \<open>n\<close> pairs of the synchronizer: \<open>read_next\<close> called \<open>n\<close> times in a row,
  stopping early at the end of the stream.
\<close>

fun pull :: "nat \<Rightarrow> provider \<Rightarrow> py_error + ((tick \<times> tick) list \<times> provider)" where
  "pull 0 p = Inr ([], p)"
| "pull (Suc n) p =
     (case read_next p of
        Inl e \<Rightarrow> Inl e
      | Inr (None, p1) \<Rightarrow> Inr ([], p1)
      | Inr (Some pr, p1) \<Rightarrow>
          (case pull n p1 of
             Inl e \<Rightarrow> Inl e
           | Inr (prs, p2) \<Rightarrow> Inr (pr # prs, p2)))"

text \<open>
  What a side still has to deliver, in arrival order, to a provider of type \<open>dt\<close>: the
  records of the matching type not yet read.  For the swap side the buffered tick
  \<open>current_swap\<close> comes first; once it is \<open>None\<close> the swap side has ended and
  \<open>read_next\<close> emits no further pair.
\<close>

definition valid_ahead :: "string \<Rightarrow> stream \<Rightarrow> tick list" where
  "valid_ahead dt s = filter (accepts dt) (remaining s)"

definition swap_ahead :: "provider \<Rightarrow> tick list" where
  "swap_ahead p = (case current_swap p of None \<Rightarrow> []
                   | Some c \<Rightarrow> c # valid_ahead (data_type p) (swap p))"

definition spot_ahead :: "provider \<Rightarrow> tick list" where
  "spot_ahead p = valid_ahead (data_type p) (spot p)"

section \<open>Concrete scenarios\<close>

definition no_events :: daily_rates where
  "no_events = (\<lambda>d. [])"

definition ex_strategy :: strategy where
  "ex_strategy = init_strategy 10000 2 (15 / 100000) True"

definition bar1 :: bar where
  "bar1 = \<lparr>exchange_timestamp = 3600, bar_swap_price = 30100, bar_spot_price = 30000\<rparr>"

definition bar_long :: bar where
  "bar_long = \<lparr>exchange_timestamp = 90000, bar_swap_price = 29900, bar_spot_price = 30000\<rparr>"

definition pos1 :: position where
  "pos1 = \<lparr>position_type = Short, entry_time = 3600, swap_price = 30100,
            spot_price = 30000, amount = 50 / 301, position_id = 1,
            funding_payments = []\<rparr>"

definition st_short :: strategy where
  "st_short = \<lparr>initial_capital = 10000, capital = 12038197 / 1204,
      max_positions = 2, fee_rate = 3 / 20000, funding_fee_enabled = True,
      positions = [pos1], closed_positions = [], next_position_id = 2, total_pnl = 0,
      total_fee = 1803 / 1204, total_funding_fee = 0, trade_count = 0,
      win_count = 0, current_position_type = Some Short,
      last_entry_time = 3600, next_funding_time = None\<rparr>"

definition st_liquidated :: strategy where
  "st_liquidated = \<lparr>initial_capital = 10000, capital = 12034591 / 1204,
      max_positions = 2, fee_rate = 3 / 20000, funding_fee_enabled = True,
      positions = [], closed_positions = [pos1], next_position_id = 2, total_pnl = 0,
      total_fee = 5409 / 1204, total_funding_fee = 0, trade_count = 1,
      win_count = 0, current_position_type = Some Short,
      last_entry_time = 3600, next_funding_time = None\<rparr>"

definition bar2 :: bar where
  "bar2 = \<lparr>exchange_timestamp = 7200, bar_swap_price = 30100, bar_spot_price = 30000\<rparr>"

definition pos2 :: position where
  "pos2 = \<lparr>position_type = Short, entry_time = 7200, swap_price = 30100,
            spot_price = 30000, amount = 50 / 301, position_id = 2,
            funding_payments = []\<rparr>"

definition st_two :: strategy where
  "st_two = \<lparr>initial_capital = 10000, capital = 6018197 / 602,
      max_positions = 2, fee_rate = 3 / 20000, funding_fee_enabled = True,
      positions = [pos1, pos2], closed_positions = [], next_position_id = 3, total_pnl = 0,
      total_fee = 1803 / 602, total_funding_fee = 0, trade_count = 0,
      win_count = 0, current_position_type = Some Short,
      last_entry_time = 7200, next_funding_time = None\<rparr>"

definition bar_near :: bar where
  "bar_near = \<lparr>exchange_timestamp = 28001, bar_swap_price = 30100, bar_spot_price = 30000\<rparr>"

definition sparse_daily :: daily_rates where
  "sparse_daily = (\<lambda>d. if d = 2 then [(200000, 1 / 10000)] else [])"

definition settle_daily :: daily_rates where
  "settle_daily = (\<lambda>d. if d = 0 then [(57600, 1 / 10000)] else [])"

definition bar_zero_spot :: bar where
  "bar_zero_spot = \<lparr>exchange_timestamp = 3600, bar_swap_price = 30000, bar_spot_price = 0\<rparr>"

definition bar_zero_swap :: bar where
  "bar_zero_swap = \<lparr>exchange_timestamp = 3600, bar_swap_price = 0, bar_spot_price = 30000\<rparr>"

definition st_short_f :: strategy where
  "st_short_f = st_short\<lparr>next_funding_time := Some 57600\<rparr>"

text \<open>
  No position of a run was opened at or before time 0: the first entry needs
  \<open>timestamp - last_entry_time >= 3600\<close> with \<open>last_entry_time = 0\<close>.
\<close>

definition entries_positive :: "strategy \<Rightarrow> bool" where
  "entries_positive st = (0 \<le> last_entry_time st \<and> (\<forall>p \<in> set (positions st). 0 < entry_time p))"

definition mk_tick :: "rat \<Rightarrow> tick" where
  "mk_tick t = \<lparr>kind = Depth, timestamp = t, bid_prices = [30000], ask_prices = [30001]\<rparr>"

definition ex_provider :: provider where
  "ex_provider = \<lparr>data_type = ''Depth'', start_ts = 0, end_ts = 100,
      swap = \<lparr>reader = [mk_tick 2, mk_tick 10], later_readers = [[mk_tick 12]]\<rparr>,
      spot = \<lparr>reader = [mk_tick 0, mk_tick 3, mk_tick 4], later_readers = [[mk_tick 11]]\<rparr>,
      current_swap = Some (mk_tick 1), last_timestamp = None\<rparr>"

definition ex_provider1 :: provider where
  "ex_provider1 = \<lparr>data_type = ''Depth'', start_ts = 0, end_ts = 100,
      swap = \<lparr>reader = [], later_readers = [[mk_tick 12]]\<rparr>,
      spot = \<lparr>reader = [mk_tick 4], later_readers = [[mk_tick 11]]\<rparr>,
      current_swap = Some (mk_tick 10), last_timestamp = None\<rparr>"

definition interval_provider :: provider where
  "interval_provider = \<lparr>data_type = ''Depth'', start_ts = 0, end_ts = 100,
      swap = \<lparr>reader = [mk_tick 0, mk_tick 1], later_readers = []\<rparr>,
      spot = \<lparr>reader = [mk_tick (9 / 10), mk_tick 1], later_readers = []\<rparr>,
      current_swap = None, last_timestamp = None\<rparr>"

definition interval_provider_end :: provider where
  "interval_provider_end = \<lparr>data_type = ''Depth'', start_ts = 0, end_ts = 100,
      swap = \<lparr>reader = [], later_readers = []\<rparr>,
      spot = \<lparr>reader = [], later_readers = []\<rparr>,
      current_swap = None, last_timestamp = Some 1\<rparr>"

definition ex_provider_later :: provider where
  "ex_provider_later = ex_provider\<lparr>last_timestamp := Some 0\<rparr>"

definition ex_provider2 :: provider where
  "ex_provider2 = \<lparr>data_type = ''Depth'', start_ts = 0, end_ts = 100,
      swap = \<lparr>reader = [], later_readers = []\<rparr>,
      spot = \<lparr>reader = [], later_readers = []\<rparr>,
      current_swap = Some (mk_tick 12), last_timestamp = Some 10\<rparr>"

definition day1_result :: day_result where
  "day1_result = \<lparr>day_pnl = - (5409 / 1204), day_cumulative_pnl = 0,
      day_capital = 12034591 / 1204,
      day_trades = [(3600, Open, Short, 50 / 301, 30100, 30000),
                    (3600, Close, Short, 50 / 301, 30100, 30000)],
      day_win_rate = 0\<rparr>"

definition run1_result :: run_result where
  "run1_result = \<lparr>res_total_pnl = 0, res_total_fee = 5409 / 1204,
      res_total_funding_fee = 0, res_net_pnl = - (5409 / 1204),
      res_annual_return = Fin 0, res_trade_count = 1, res_win_rate = 0,
      res_initial_capital = 10000, res_final_capital = 12034591 / 1204,
      res_daily_results = [day1_result]\<rparr>"

definition pos_zero_spot :: position where
  "pos_zero_spot = \<lparr>position_type = Short, entry_time = 3600, swap_price = 30000,
      spot_price = 0, amount = 1 / 6, position_id = 1, funding_payments = []\<rparr>"

definition st_zero_spot :: strategy where
  "st_zero_spot = \<lparr>initial_capital = 10000, capital = 39997 / 4,
      max_positions = 2, fee_rate = 3 / 20000, funding_fee_enabled = True,
      positions = [pos_zero_spot], closed_positions = [], next_position_id = 2,
      total_pnl = 0, total_fee = 3 / 4, total_funding_fee = 0, trade_count = 0,
      win_count = 0, current_position_type = Some Short,
      last_entry_time = 3600, next_funding_time = None\<rparr>"

section \<open>The scenario states are reachable\<close>

lemma step_bar1:
  "process_data no_events ex_strategy [bar1]
     = Inr ([(Open, Short, 50 / 301, 30100, 30000)], st_short)"
  by code_simp

lemma reachable_st_short: "reachable no_events st_short"
  by (rule reach_step[OF reach_init step_bar1[unfolded ex_strategy_def]])

lemma liquidate_bar1:
  "force_liquidate [bar1] ([], st_short)
     = ([(3600, Close, Short, 50 / 301, 30100, 30000)], st_liquidated)"
  by code_simp

lemma reachable_st_liquidated: "reachable no_events st_liquidated"
  by (rule reach_liquidate[OF reachable_st_short liquidate_bar1])

section \<open>Trade counters\<close>

lemma accrue_all_counts:
  "accrue_all ts r ps st = (ps', st') \<Longrightarrow>
     trade_count st' = trade_count st \<and> win_count st' = win_count st"
  by (induction ps arbitrary: st ps' st')
     (auto simp: accrue_position_def Let_def split: prod.splits if_splits)

lemma process_funding_fees_counts:
  "trade_count (process_funding_fees daily st ts) = trade_count st \<and>
   win_count (process_funding_fees daily st ts) = win_count st"
  by (auto simp: process_funding_fees_def Let_def split: prod.splits option.splits
           dest: accrue_all_counts)

lemma update_next_funding_time_counts:
  "trade_count (update_next_funding_time daily st ts) = trade_count st \<and>
   win_count (update_next_funding_time daily st ts) = win_count st"
  by (simp add: update_next_funding_time_def Let_def)

lemma settle_close_counts:
  "settle_close st p a b = (tr, st') \<Longrightarrow> win_count st \<le> trade_count st
     \<Longrightarrow> win_count st' \<le> trade_count st'"
  by (auto simp: settle_close_def Let_def)

lemma close_position_counts:
  "close_position st p a b = (tr, st') \<Longrightarrow> win_count st \<le> trade_count st
     \<Longrightarrow> win_count st' \<le> trade_count st'"
  by (auto simp: close_position_def split: prod.splits if_splits dest: settle_close_counts)

lemma exit_loop_counts:
  "exit_loop daily data a b ps (trades, st) = Inr (trades', st') \<Longrightarrow>
     win_count st \<le> trade_count st \<Longrightarrow> win_count st' \<le> trade_count st'"
proof (induction ps arbitrary: trades st)
  case Nil
  then show ?case by simp
next
  case (Cons p ps)
  then show ?case
    by (auto simp: bind_def split: sum.splits if_splits prod.splits dest: close_position_counts)
qed

lemma entry_step_counts:
  "entry_step daily data ts a b (trades, st) = Inr (trades', st') \<Longrightarrow>
     win_count st \<le> trade_count st \<Longrightarrow> win_count st' \<le> trade_count st'"
  by (auto simp: entry_step_def open_position_def bind_def Let_def
           split: sum.splits if_splits prod.splits)

lemma process_data_counts:
  assumes "process_data daily st data = Inr (trades, st')" "win_count st \<le> trade_count st"
  shows "win_count st' \<le> trade_count st'"
proof (cases "data = []")
  case True
  with assms show ?thesis by (simp add: process_data_def)
next
  case False
  let ?ts = "exchange_timestamp (last data)"
  let ?st2 = "update_next_funding_time daily (process_funding_fees daily st ?ts) ?ts"
  have inv2: "win_count ?st2 \<le> trade_count ?st2"
    using assms(2) by (simp add: update_next_funding_time_counts process_funding_fees_counts)
  from assms(1) False obtain trades1 st3 where
    e: "exit_loop daily data (bar_swap_price (last data)) (bar_spot_price (last data))
          (positions ?st2) ([], ?st2) = Inr (trades1, st3)"
    and f: "entry_step daily data ?ts (bar_swap_price (last data)) (bar_spot_price (last data))
          (trades1, st3) = Inr (trades, st')"
    by (auto simp: process_data_def Let_def bind_def split: sum.splits)
  from exit_loop_counts[OF e inv2] entry_step_counts[OF f] show ?thesis by simp
qed

lemma liquidation_loop_counts:
  "liquidation_loop t a b ps (tr, st) = (tr', st') \<Longrightarrow> win_count st \<le> trade_count st
     \<Longrightarrow> win_count st' \<le> trade_count st'"
  by (induction ps arbitrary: tr st)
     (auto split: prod.splits dest: settle_close_counts)

lemma force_liquidate_counts:
  "force_liquidate df (tr, st) = (tr', st') \<Longrightarrow> win_count st \<le> trade_count st
     \<Longrightarrow> win_count st' \<le> trade_count st'"
  by (auto simp: force_liquidate_def Let_def split: if_splits dest: liquidation_loop_counts)

lemma reachable_counts: "reachable daily st \<Longrightarrow> win_count st \<le> trade_count st"
proof (induction rule: reachable.induct)
  case (reach_init cap maxp fr enabled)
  show ?case by (simp add: init_strategy_def)
next
  case (reach_step st data trades st')
  then show ?case using process_data_counts by blast
next
  case (reach_liquidate st df tr tr' st')
  then show ?case using force_liquidate_counts by blast
qed

lemma win_rate_bounds:
  assumes "reachable daily st"
  shows "\<exists>r. win_rate st = Inr r \<and> 0 \<le> r \<and> r \<le> 1 \<and>
              r = (if trade_count st = 0 then 0
                   else of_nat (win_count st) / of_nat (trade_count st))"
proof -
  have le: "win_count st \<le> trade_count st" by (rule reachable_counts[OF assms])
  have nz: "(of_nat (max 1 (trade_count st)) :: rat) > 0" by simp
  have wr: "win_rate st = Inr (of_nat (win_count st) / of_nat (max 1 (trade_count st)))"
    using nz by (simp add: win_rate_def py_div_def)
  have "(of_nat (win_count st) :: rat) \<le> of_nat (max 1 (trade_count st))"
    using le by (simp add: max_def)
  then have "of_nat (win_count st) / (of_nat (max 1 (trade_count st)) :: rat) \<le> 1"
    using nz by (simp add: divide_le_eq_1)
  moreover have "trade_count st = 0 \<Longrightarrow> win_count st = 0" using le by simp
  moreover have "trade_count st \<noteq> 0 \<Longrightarrow> max 1 (trade_count st) = trade_count st" by simp
  ultimately show ?thesis using le wr by auto
qed

lemma bar_loop_reachable:
  "bar_loop daily w df idx (tr, st) = Inr (tr', st') \<Longrightarrow> reachable daily st
     \<Longrightarrow> reachable daily st'"
proof (induction idx arbitrary: tr st)
  case Nil
  then show ?case by simp
next
  case (Cons i idx)
  from Cons.prems(1) obtain trades st1 where
    pd: "process_data daily st (take (w + 1) (drop (i - w) df)) = Inr (trades, st1)"
    and bl: "bar_loop daily w df idx
               (tr @ map (\<lambda>t. (exchange_timestamp (df ! i), t)) trades, st1) = Inr (tr', st')"
    by (auto simp: bind_def Let_def split: sum.splits prod.splits)
  from Cons.IH[OF bl reach_step[OF Cons.prems(2) pd]] show ?case .
qed

lemma run_single_day_reachable:
  assumes "run_single_day daily w st df = Inr (pnl, res, st')" "reachable daily st"
  shows "reachable daily st' \<and> (\<forall>r. res = Some r \<longrightarrow> win_rate st' = Inr (day_win_rate r))"
proof (cases "df = []")
  case True
  with assms show ?thesis by (simp add: run_single_day_def)
next
  case False
  with assms(1) obtain tr1 st1 tr2 where
    bl: "bar_loop daily w df [w ..< length df] ([], st) = Inr (tr1, st1)"
    and fl: "force_liquidate df (tr1, st1) = (tr2, st')"
    and wr: "\<forall>r. res = Some r \<longrightarrow> win_rate st' = Inr (day_win_rate r)"
    by (auto simp: run_single_day_def bind_def Let_def split: sum.splits prod.splits)
  from reach_liquidate[OF bar_loop_reachable[OF bl assms(2)] fl] wr show ?thesis by simp
qed

lemma day_loop_reachable:
  "day_loop daily w dfs (results, st) = Inr (results', st') \<Longrightarrow> reachable daily st \<Longrightarrow>
   (\<forall>d \<in> set results. 0 \<le> day_win_rate d \<and> day_win_rate d \<le> 1) \<Longrightarrow>
   reachable daily st' \<and> (\<forall>d \<in> set results'. 0 \<le> day_win_rate d \<and> day_win_rate d \<le> 1)"
proof (induction dfs arbitrary: results st)
  case Nil
  then show ?case by simp
next
  case (Cons df dfs)
  from Cons.prems(1) obtain pnl res st1 where
    rd: "run_single_day daily w st df = Inr (pnl, res, st1)"
    and dl: "day_loop daily w dfs
               (case res of None \<Rightarrow> results | Some r \<Rightarrow> results @ [r], st1) = Inr (results', st')"
    by (auto simp: bind_def split: sum.splits prod.splits)
  note r1 = run_single_day_reachable[OF rd Cons.prems(2)]
  have "\<forall>d \<in> set (case res of None \<Rightarrow> results | Some r \<Rightarrow> results @ [r]).
          0 \<le> day_win_rate d \<and> day_win_rate d \<le> 1"
  proof (cases res)
    case None
    with Cons.prems(3) show ?thesis by simp
  next
    case (Some r)
    with r1 win_rate_bounds[of daily st1] have "0 \<le> day_win_rate r \<and> day_win_rate r \<le> 1"
      by auto
    with Some Cons.prems(3) show ?thesis by auto
  qed
  from Cons.IH[OF dl _ this] r1 show ?case by simp
qed

lemma run_single_day_ex:
  "run_single_day no_events 0 ex_strategy [bar1]
     = Inr (- (5409 / 1204), Some day1_result, st_liquidated)"
  by code_simp

lemma run_ex2:
  "run no_events 0 ex_strategy [[bar1]] = Inr (run1_result, st_liquidated)"
  by code_simp

text \<open>
  Claim C10.  The win rate both \<open>run_single_day\<close> and \<open>run\<close> report is
  \<open>win_count / max(1, trade_count)\<close> (\<open>win_rate\<close>).  In every reachable ledger state
  the divisor is at least one, so the division never fails; wins never outnumber trades,
  so the rate lies between 0 and 1; and with no completed trade it is 0.  The rate of a
  day's result and of the aggregate result is the rate of the state the day or run
  ends in, and lies between 0 and 1.
\<close>

theorem win_rate_well_defined:
  assumes "reachable daily st"
  shows "win_count st \<le> trade_count st
       \<and> (\<exists>r. win_rate st = Inr r \<and> 0 \<le> r \<and> r \<le> 1 \<and>
              r = (if trade_count st = 0 then 0
                   else of_nat (win_count st) / of_nat (trade_count st)))
       \<and> (run_single_day daily w st df = Inr (pnl, Some dres, st1) \<longrightarrow>
            win_rate st1 = Inr (day_win_rate dres) \<and>
            0 \<le> day_win_rate dres \<and> day_win_rate dres \<le> 1)
       \<and> (run daily w st dfs = Inr (res, st2) \<longrightarrow>
            win_rate st2 = Inr (res_win_rate res) \<and>
            0 \<le> res_win_rate res \<and> res_win_rate res \<le> 1 \<and>
            (\<forall>d \<in> set (res_daily_results res). 0 \<le> day_win_rate d \<and> day_win_rate d \<le> 1))"
proof (intro conjI impI)
  show "win_count st \<le> trade_count st" by (rule reachable_counts[OF assms])
  show "\<exists>r. win_rate st = Inr r \<and> 0 \<le> r \<and> r \<le> 1 \<and>
              r = (if trade_count st = 0 then 0
                   else of_nat (win_count st) / of_nat (trade_count st))"
    by (rule win_rate_bounds[OF assms])
next
  assume a: "run_single_day daily w st df = Inr (pnl, Some dres, st1)"
  from run_single_day_reachable[OF a assms] win_rate_bounds[of daily st1]
  show "win_rate st1 = Inr (day_win_rate dres)" "0 \<le> day_win_rate dres" "day_win_rate dres \<le> 1"
    by auto
next
  assume a: "run daily w st dfs = Inr (res, st2)"
  then obtain results where
    dl: "day_loop daily w dfs ([], st) = Inr (results, st2)"
    and wr: "win_rate st2 = Inr (res_win_rate res)"
    and dr: "res_daily_results res = results"
    by (auto simp: run_def bind_def Let_def split: if_splits sum.splits prod.splits)
  from day_loop_reachable[OF dl assms] have
    r2: "reachable daily st2" and
    ds: "\<forall>d \<in> set results. 0 \<le> day_win_rate d \<and> day_win_rate d \<le> 1" by simp_all
  from wr show "win_rate st2 = Inr (res_win_rate res)" .
  from wr win_rate_bounds[OF r2] show "0 \<le> res_win_rate res" "res_win_rate res \<le> 1" by auto
  from ds dr show "\<forall>d \<in> set (res_daily_results res). 0 \<le> day_win_rate d \<and> day_win_rate d \<le> 1"
    by simp
qed

theorem win_rate_well_defined_witness:
  "reachable no_events ex_strategy
   \<and> trade_count ex_strategy = 0 \<and> win_rate ex_strategy = Inr 0
   \<and> run_single_day no_events 0 ex_strategy [bar1]
       = Inr (- (5409 / 1204), Some day1_result, st_liquidated)
   \<and> run no_events 0 ex_strategy [[bar1]] = Inr (run1_result, st_liquidated)
   \<and> trade_count st_liquidated = 1
   \<and> win_rate st_liquidated = Inr (day_win_rate day1_result)
   \<and> win_rate st_liquidated = Inr (res_win_rate run1_result)
   \<and> 0 \<le> res_win_rate run1_result \<and> res_win_rate run1_result \<le> 1"
proof -
  have r0: "reachable no_events ex_strategy" unfolding ex_strategy_def by (rule reach_init)
  have t0: "trade_count ex_strategy = 0" by code_simp
  have t1: "trade_count st_liquidated = 1" by code_simp
  from win_rate_well_defined[OF r0, of 0 "[bar1]" "- (5409 / 1204)" day1_result st_liquidated
         "[[bar1]]" run1_result st_liquidated]
    r0 t0 t1 run_single_day_ex run_ex2
  show ?thesis by (auto simp del: day_result.simps run_result.simps)
qed

text \<open>
  Claim C8.  A position opened at swap price \<open>s\<close> and spot price \<open>p\<close> and closed at the
  same two prices has price PnL zero, whatever its side and size; the capital change of
  the opening step plus that of the closing step is minus the fees the two steps charge:
  the entry fee \<open>(s + p) * size * fee_rate\<close> and the exit fee
  \<open>(s + p + s + p) * size * fee_rate\<close>; realized PnL is unchanged.  The forced
  liquidation at the end of a day changes the capital as the signal-driven close does.
\<close>

theorem round_trip_fees_only:
  assumes "open_position st ptype ts s p = Inr (tr1, st1)"
      and "pos = (last (positions st1))\<lparr>funding_payments := fp\<rparr>"
      and "close_position st' pos s p = (tr2, st2)"
  shows "calculate_pnl pos s p = 0 \<and> total_pnl st2 = total_pnl st'
         \<and> (capital st1 - capital st) + (capital st2 - capital st')
             = - ((total_fee st1 - total_fee st) + (total_fee st2 - total_fee st'))
         \<and> total_fee st1 - total_fee st = (s + p) * amount pos * fee_rate st
         \<and> total_fee st2 - total_fee st' = (s + p + s + p) * amount pos * fee_rate st'
         \<and> capital (snd (settle_close st' pos s p)) = capital st2
         \<and> (swap_price q = s \<and> spot_price q = p \<longrightarrow> calculate_pnl q s p = 0)"
  using assms
  by (auto simp: open_position_def close_position_def settle_close_def calculate_pnl_def
                 bind_def Let_def split: sum.splits if_splits)

theorem round_trip_fees_only_witness:
  "open_position ex_strategy Short 3600 30100 30000
     = Inr ((Open, Short, 50 / 301, 30100, 30000), st_short)
   \<and> close_position st_short pos1 30100 30000
     = ((Close, Short, 50 / 301, 30100, 30000), st_liquidated\<lparr>current_position_type := None\<rparr>)
   \<and> swap_price pos1 = 30100 \<and> spot_price pos1 = 30000
   \<and> calculate_pnl pos1 30100 30000 = 0
   \<and> capital (st_liquidated\<lparr>current_position_type := None\<rparr>) - capital ex_strategy
     = - (5409 / 1204)"
proof -
  have q: "swap_price pos1 = 30100 \<and> spot_price pos1 = 30000" by code_simp
  have o: "open_position ex_strategy Short 3600 30100 30000
             = Inr ((Open, Short, 50 / 301, 30100, 30000), st_short)"
    by code_simp
  have p: "pos1 = (last (positions st_short))\<lparr>funding_payments := []\<rparr>" by code_simp
  have c: "close_position st_short pos1 30100 30000
             = ((Close, Short, 50 / 301, 30100, 30000),
                st_liquidated\<lparr>current_position_type := None\<rparr>)"
    by code_simp
  have t: "total_fee (st_liquidated\<lparr>current_position_type := None\<rparr>) - total_fee ex_strategy
             = 5409 / 1204"
    by code_simp
  from round_trip_fees_only[OF o p c, where q = pos1] o c t q show ?thesis by simp
qed

section \<open>The direction lock\<close>

lemma close_position_clears_lock:
  "close_position st p a b = (tr, st') \<Longrightarrow> positions st' = []
     \<Longrightarrow> current_position_type st' = None"
  by (auto simp: close_position_def split: prod.splits if_splits)

text \<open>
  Claim C3.  The signal-driven close of \<open>process_data\<close> resets the direction lock when
  it empties the open set (\<open>close_position_clears_lock\<close>).  The forced liquidation of
  \<open>run_single_day\<close> does not: a day that opens one short position on its only bar ends
  with no open position and the lock still short, and a long entry signal on a later
  bar opens nothing.
\<close>

theorem forced_liquidation_keeps_direction_lock:
  "map_sum id (snd \<circ> snd) (run_single_day no_events 0 ex_strategy [bar1]) = Inr st_liquidated
   \<and> positions st_liquidated = []
   \<and> current_position_type st_liquidated = Some Short
   \<and> \<not> can_open_position st_liquidated Long
   \<and> get_entry_signal no_events [bar_long] = Inr 1
   \<and> process_data no_events st_liquidated [bar_long] = Inr ([], st_liquidated)"
  by code_simp

section \<open>Position sizing\<close>

lemma accrue_all_static:
  "accrue_all ts r ps st = (ps', st') \<Longrightarrow>
     initial_capital st' = initial_capital st \<and> max_positions st' = max_positions st"
  by (induction ps arbitrary: st ps' st')
     (auto simp: accrue_position_def Let_def split: prod.splits if_splits)

lemma process_funding_fees_static:
  "initial_capital (process_funding_fees daily st ts) = initial_capital st \<and>
   max_positions (process_funding_fees daily st ts) = max_positions st"
  by (auto simp: process_funding_fees_def Let_def split: prod.splits option.splits
           dest: accrue_all_static)

lemma update_next_funding_time_static:
  "initial_capital (update_next_funding_time daily st ts) = initial_capital st \<and>
   max_positions (update_next_funding_time daily st ts) = max_positions st"
  by (simp add: update_next_funding_time_def Let_def)

lemma close_position_static:
  "close_position st p a b = (tr, st') \<Longrightarrow>
     fst tr = Close \<and> initial_capital st' = initial_capital st \<and>
     max_positions st' = max_positions st"
  by (auto simp: close_position_def settle_close_def Let_def split: if_splits)

lemma exit_loop_static:
  "exit_loop daily data a b ps (trades, st) = Inr (trades', st') \<Longrightarrow>
     (\<exists>cl. trades' = trades @ cl \<and> (\<forall>t \<in> set cl. fst t = Close)) \<and>
     initial_capital st' = initial_capital st \<and> max_positions st' = max_positions st"
proof (induction ps arbitrary: trades st)
  case Nil
  then show ?case by simp
next
  case (Cons p ps)
  show ?case
  proof (cases "get_exit_signal daily data (position_type p)")
    case (Inl e)
    with Cons.prems show ?thesis by (simp add: bind_def)
  next
    case (Inr sg)
    show ?thesis
    proof (cases "sg > 0")
      case False
      with Inr Cons.prems have "exit_loop daily data a b ps (trades, st) = Inr (trades', st')"
        by (simp add: bind_def)
      from Cons.IH[OF this] show ?thesis .
    next
      case True
      obtain tr st1 where c: "close_position st p a b = (tr, st1)"
        by (cases "close_position st p a b")
      with True Inr Cons.prems
      have "exit_loop daily data a b ps (trades @ [tr], st1) = Inr (trades', st')"
        by (simp add: bind_def)
      from Cons.IH[OF this] close_position_static[OF c] show ?thesis by auto
    qed
  qed
qed

text \<open>
  Claim C4, as stated: the size of an opened position would be
  \<open>(capital / max_positions) / max(s, p)\<close> with the capital at the moment of entry.  It
  fails on the second entry of a run: after the first entry fee the capital is
  \<open>12038197 / 1204\<close>, yet the second position is sized \<open>50 / 301\<close>, that is
  \<open>(10000 / 2) / 30100\<close>.
\<close>

theorem position_size_ignores_current_capital:
  "process_data no_events ex_strategy [bar1]
     = Inr ([(Open, Short, 50 / 301, 30100, 30000)], st_short)
   \<and> process_data no_events st_short [bar2]
     = Inr ([(Open, Short, 50 / 301, 30100, 30000)], st_two)
   \<and> capital st_short = 12038197 / 1204
   \<and> amount (last (positions st_two))
       \<noteq> (capital st_short / of_int (max_positions st_short)) / max 30100 30000"
  by code_simp

text \<open>
  Claim C4, amended: every position \<open>process_data\<close> opens at swap price \<open>s\<close> and spot
  price \<open>p\<close> has size \<open>(initial_capital / max_positions) / max(s, p)\<close>, where
  \<open>initial_capital\<close> is the capital the strategy was constructed with
  (\<open>get_position_size\<close>); \<open>s\<close> and \<open>p\<close> are the prices of the latest bar.
\<close>

theorem position_size_from_initial_capital:
  assumes "process_data daily st data = Inr (trades, st')"
      and "(Open, ptype, amt, s, p) \<in> set trades"
  shows "max_positions st \<noteq> 0 \<and> max s p \<noteq> 0
         \<and> amt = (initial_capital st / of_int (max_positions st)) / max s p
         \<and> s = bar_swap_price (last data) \<and> p = bar_spot_price (last data)
         \<and> positions st' \<noteq> []
         \<and> position_type (last (positions st')) = ptype
         \<and> swap_price (last (positions st')) = s \<and> spot_price (last (positions st')) = p
         \<and> amount (last (positions st')) = amt"
proof -
  have ne: "data \<noteq> []" using assms by (auto simp: process_data_def)
  let ?ts = "exchange_timestamp (last data)"
  let ?s = "bar_swap_price (last data)"
  let ?p = "bar_spot_price (last data)"
  let ?st2 = "update_next_funding_time daily (process_funding_fees daily st ?ts) ?ts"
  from assms(1) ne obtain trades1 st3 where
    e: "exit_loop daily data ?s ?p (positions ?st2) ([], ?st2) = Inr (trades1, st3)"
    and f: "entry_step daily data ?ts ?s ?p (trades1, st3) = Inr (trades, st')"
    by (auto simp: process_data_def Let_def bind_def split: sum.splits)
  from exit_loop_static[OF e]
  have cl: "\<forall>t \<in> set trades1. fst t = Close"
    and ic: "initial_capital st3 = initial_capital st"
    and mp: "max_positions st3 = max_positions st"
    by (auto simp: update_next_funding_time_static process_funding_fees_static)
  have notin: "(Open, ptype, amt, s, p) \<notin> set trades1" using cl by fastforce
  from f assms(2) notin ic mp show ?thesis
    by (auto simp: entry_step_def open_position_def calculate_trade_amount_def
                   get_position_size_def py_div_def np_div_def bind_def Let_def
             split: sum.splits if_splits prod.splits npfloat.splits)
qed

theorem position_size_from_initial_capital_witness:
  "process_data no_events st_short [bar2]
     = Inr ([(Open, Short, 50 / 301, 30100, 30000)], st_two)
   \<and> (50 / 301 :: rat) = (initial_capital st_short / of_int (max_positions st_short)) / max 30100 30000
   \<and> amount (last (positions st_two)) = 50 / 301"
proof -
  have s: "process_data no_events st_short [bar2]
     = Inr ([(Open, Short, 50 / 301, 30100, 30000)], st_two)" by code_simp
  have m: "(Open, Short, 50 / 301, 30100, 30000) \<in> set [(Open, Short, 50 / 301 :: rat, 30100 :: rat, 30000 :: rat)]"
    by simp
  from position_size_from_initial_capital[OF s m] s show ?thesis by simp
qed

section \<open>Signals\<close>

text \<open>
  Claim C5.  Near settlement with no funding event to be found, \<open>get_next_funding_rate\<close>
  returns the pair \<open>(None, None)\<close>; a pair is true in a condition, so the
  settlement branch is taken and the comparison of the rate \<open>None\<close> with \<open>0\<close>
  raises: neither signal falls back to the ordinary thresholds.
\<close>

theorem missing_funding_raises:
  "is_near_settlement (exchange_timestamp bar_near)
   \<and> get_next_funding_rate no_events (exchange_timestamp bar_near) = (None, None)
   \<and> get_entry_signal no_events [bar_near] = Inl TypeError
   \<and> get_exit_signal no_events [bar_near] Short = Inl TypeError
   \<and> get_exit_signal no_events [bar_near] Long = Inl TypeError"
  by code_simp

text \<open>
  Claim C9, as stated: for a bar with a zero spot or swap price the ratio
  \<open>swap_price / spot_price\<close> would not be computed and the bar skipped without a signal.
  With a zero spot price the division is carried out on a zero divisor and gives
  \<open>inf\<close>: the entry signal is short, the exit signal of a long position is 1, and
  \<open>process_data\<close> opens a short position on that bar.  With a zero swap price the
  ratio is 0 and a long entry is signalled.
\<close>

theorem zero_price_reaches_ratio:
  "bar_spot_price bar_zero_spot = 0
   \<and> np_div (bar_swap_price bar_zero_spot) (bar_spot_price bar_zero_spot) = PInf
   \<and> get_entry_signal no_events [bar_zero_spot] = Inr (- 1)
   \<and> get_exit_signal no_events [bar_zero_spot] Long = Inr 1
   \<and> process_data no_events ex_strategy [bar_zero_spot]
       = Inr ([(Open, Short, 1 / 6, 30000, 0)], st_zero_spot)
   \<and> bar_swap_price bar_zero_swap = 0
   \<and> get_entry_signal no_events [bar_zero_swap] = Inr 1"
  by code_simp

text \<open>
  Claim C9, amended: signal evaluation has no zero-price guard; a bar with a zero price
  is not skipped, and the division \<open>swap_price / spot_price\<close> is computed for it
  without raising \<open>ZeroDivisionError\<close>.  With a zero spot price and a positive swap
  price the division is by zero and gives \<open>inf\<close>: outside the settlement window
  \<open>get_entry_signal\<close> returns the short signal -1 and \<open>get_exit_signal\<close> returns 0
  for a short and 1 for a long position.  With a zero swap price and a non-zero spot
  price the ratio is 0 and, outside the settlement window, \<open>get_entry_signal\<close> returns
  the long signal 1.
\<close>

theorem zero_price_not_guarded:
  assumes "data \<noteq> []"
  shows "get_entry_signal daily data \<noteq> Inl ZeroDivisionError
       \<and> get_exit_signal daily data sd \<noteq> Inl ZeroDivisionError
       \<and> (bar_spot_price (last data) = 0 \<and> bar_swap_price (last data) > 0 \<and>
            \<not> is_near_settlement (exchange_timestamp (last data)) \<longrightarrow>
            np_div (bar_swap_price (last data)) (bar_spot_price (last data)) = PInf \<and>
            get_entry_signal daily data = Inr (- 1) \<and>
            get_exit_signal daily data Short = Inr 0 \<and>
            get_exit_signal daily data Long = Inr 1)
       \<and> (bar_swap_price (last data) = 0 \<and> bar_spot_price (last data) \<noteq> 0 \<and>
            \<not> is_near_settlement (exchange_timestamp (last data)) \<longrightarrow>
            np_div (bar_swap_price (last data)) (bar_spot_price (last data)) = Fin 0 \<and>
            get_entry_signal daily data = Inr 1)"
proof (intro conjI impI)
  show "get_entry_signal daily data \<noteq> Inl ZeroDivisionError"
    by (auto simp: get_entry_signal_def iloc_last_def bind_def py_gt_def Let_def
             split: option.splits if_splits)
  show "get_exit_signal daily data sd \<noteq> Inl ZeroDivisionError"
    by (cases sd)
       (auto simp: get_exit_signal_def iloc_last_def bind_def py_gt_def py_lt_def Let_def
             split: option.splits if_splits)
next
  assume a: "bar_spot_price (last data) = 0 \<and> bar_swap_price (last data) > 0 \<and>
            \<not> is_near_settlement (exchange_timestamp (last data))"
  then show r: "np_div (bar_swap_price (last data)) (bar_spot_price (last data)) = PInf"
    by (simp add: np_div_def)
  from a r assms show "get_entry_signal daily data = Inr (- 1)"
    by (simp add: get_entry_signal_def iloc_last_def bind_def Let_def np_gt_def)
  from a r assms show "get_exit_signal daily data Short = Inr 0"
    by (simp add: get_exit_signal_def iloc_last_def bind_def Let_def np_lt_def)
  from a r assms show "get_exit_signal daily data Long = Inr 1"
    by (simp add: get_exit_signal_def iloc_last_def bind_def Let_def np_gt_def)
next
  assume a: "bar_swap_price (last data) = 0 \<and> bar_spot_price (last data) \<noteq> 0 \<and>
            \<not> is_near_settlement (exchange_timestamp (last data))"
  then show r: "np_div (bar_swap_price (last data)) (bar_spot_price (last data)) = Fin 0"
    by (simp add: np_div_def)
  from a r assms show "get_entry_signal daily data = Inr 1"
    by (simp add: get_entry_signal_def iloc_last_def bind_def Let_def np_gt_def np_lt_def
                  short_in_threshold_def long_in_threshold_def)
qed

theorem zero_price_not_guarded_witness:
  "[bar_zero_spot] \<noteq> []
   \<and> bar_spot_price (last [bar_zero_spot]) = 0 \<and> bar_swap_price (last [bar_zero_spot]) > 0
   \<and> \<not> is_near_settlement (exchange_timestamp (last [bar_zero_spot]))
   \<and> get_entry_signal no_events [bar_zero_spot] = Inr (- 1)
   \<and> get_exit_signal no_events [bar_zero_spot] Short = Inr 0
   \<and> get_exit_signal no_events [bar_zero_spot] Long = Inr 1
   \<and> bar_swap_price (last [bar_zero_swap]) = 0 \<and> bar_spot_price (last [bar_zero_swap]) \<noteq> 0
   \<and> \<not> is_near_settlement (exchange_timestamp (last [bar_zero_swap]))
   \<and> get_entry_signal no_events [bar_zero_swap] = Inr 1"
proof -
  have a: "[bar_zero_spot] \<noteq> []" "[bar_zero_swap] \<noteq> []" by simp_all
  have b: "bar_spot_price (last [bar_zero_spot]) = 0 \<and> bar_swap_price (last [bar_zero_spot]) > 0
           \<and> \<not> is_near_settlement (exchange_timestamp (last [bar_zero_spot]))" by code_simp
  have c: "bar_swap_price (last [bar_zero_swap]) = 0 \<and> bar_spot_price (last [bar_zero_swap]) \<noteq> 0
           \<and> \<not> is_near_settlement (exchange_timestamp (last [bar_zero_swap]))" by code_simp
  from zero_price_not_guarded[OF a(1), of no_events Long]
       zero_price_not_guarded[OF a(2), of no_events Long] b c
  show ?thesis by blast
qed

section \<open>The next funding event\<close>

lemma scan_next_acc:
  "t < of_int a \<Longrightarrow>
   \<exists>m r. scan_next t xs (Some a, Some ra) = (Some m, Some r) \<and> m \<le> a \<and> t < of_int m \<and>
         ((m, r) \<in> set xs \<or> (m, r) = (a, ra)) \<and>
         (\<forall>e \<in> set xs. t < of_int (fst e) \<longrightarrow> m \<le> fst e)"
proof (induction xs arbitrary: a ra)
  case Nil
  then show ?case by simp
next
  case (Cons x xs)
  obtain ts rate where x: "x = (ts, rate)" by (cases x)
  show ?case
  proof (cases "of_int ts > t \<and> ts < a")
    case True
    then have "t < of_int ts" by simp
    from Cons.IH[OF this, of rate] True x show ?thesis by fastforce
  next
    case False
    from Cons.IH[OF Cons.prems, of ra] False x show ?thesis by fastforce
  qed
qed

lemma scan_next_none:
  "(\<exists>e \<in> set xs. t < of_int (fst e)) \<or> scan_next t xs (None, None) = (None, None)"
  "(\<exists>e \<in> set xs. t < of_int (fst e)) \<Longrightarrow>
   \<exists>m r. scan_next t xs (None, None) = (Some m, Some r) \<and> (m, r) \<in> set xs \<and> t < of_int m \<and>
         (\<forall>e \<in> set xs. t < of_int (fst e) \<longrightarrow> m \<le> fst e)"
proof (induction xs)
  case Nil
  { case 1 show ?case by simp }
  { case 2 then show ?case by simp }
next
  case (Cons x xs)
  obtain ts rate where x: "x = (ts, rate)" by (cases x)
  { case 1
    show ?case using Cons.IH(1) x by (cases "of_int ts > t") auto }
  { case 2
    show ?case
    proof (cases "of_int ts > t")
      case True
      from scan_next_acc[OF True, of xs rate] True x show ?thesis by fastforce
    next
      case False
      with 2 x have "\<exists>e \<in> set xs. t < of_int (fst e)" by auto
      from Cons.IH(2)[OF this] False x show ?thesis by fastforce
    qed }
qed

lemma scan_min_acc:
  "\<exists>m r. scan_min xs (Some a, Some ra) = (Some m, Some r) \<and> m \<le> a \<and>
         ((m, r) \<in> set xs \<or> (m, r) = (a, ra)) \<and> (\<forall>e \<in> set xs. m \<le> fst e)"
proof (induction xs arbitrary: a ra)
  case Nil
  then show ?case by simp
next
  case (Cons x xs)
  obtain ts rate where x: "x = (ts, rate)" by (cases x)
  show ?case
  proof (cases "ts < a")
    case True
    from Cons.IH[of ts rate] True x show ?thesis by fastforce
  next
    case False
    from Cons.IH[of a ra] False x show ?thesis by fastforce
  qed
qed

lemma scan_min_none:
  "xs \<noteq> [] \<Longrightarrow>
   \<exists>m r. scan_min xs (None, None) = (Some m, Some r) \<and> (m, r) \<in> set xs \<and>
         (\<forall>e \<in> set xs. m \<le> fst e)"
proof (cases xs)
  case Nil
  assume "xs \<noteq> []"
  with Nil show ?thesis by simp
next
  case (Cons x xs')
  obtain ts rate where x: "x = (ts, rate)" by (cases x)
  from scan_min_acc[of xs' ts rate] Cons x show ?thesis by fastforce
qed

text \<open>
  Claim C6, as stated: when the following date has no event either, the search would go
  on to the date after it.  With no event on dates 0 and 1 and one on date 2, the lookup
  for timestamp 0 returns \<open>(None, None)\<close>.
\<close>

theorem next_lookup_stops_after_one_day:
  "date_of (normalize_ts 0) = 0 \<and> sparse_daily 0 = [] \<and> sparse_daily 1 = []
   \<and> sparse_daily 2 = [(200000, 1 / 10000)]
   \<and> get_next_funding_rate sparse_daily 0 = (None, None)"
  by code_simp

text \<open>
  Claim C6, amended: \<open>get_next_funding_rate\<close> returns the event of the query's own date
  with the least timestamp strictly greater than the (normalised) query; if that date
  has none, the event with the least timestamp of the following date; and if the
  following date has no event, \<open>(None, None)\<close>: it looks one day ahead and no
  further.
\<close>

theorem next_lookup_one_day_ahead:
  "((\<exists>e \<in> set (daily (date_of (normalize_ts q))). normalize_ts q < of_int (fst e)) \<longrightarrow>
      (\<exists>m r. get_next_funding_rate daily q = (Some m, Some r) \<and>
             (m, r) \<in> set (daily (date_of (normalize_ts q))) \<and> normalize_ts q < of_int m \<and>
             (\<forall>e \<in> set (daily (date_of (normalize_ts q))).
                 normalize_ts q < of_int (fst e) \<longrightarrow> m \<le> fst e)))
   \<and> (\<not> (\<exists>e \<in> set (daily (date_of (normalize_ts q))). normalize_ts q < of_int (fst e)) \<and>
       daily (date_of (normalize_ts q) + 1) \<noteq> [] \<longrightarrow>
      (\<exists>m r. get_next_funding_rate daily q = (Some m, Some r) \<and>
             (m, r) \<in> set (daily (date_of (normalize_ts q) + 1)) \<and>
             (\<forall>e \<in> set (daily (date_of (normalize_ts q) + 1)). m \<le> fst e)))
   \<and> (\<not> (\<exists>e \<in> set (daily (date_of (normalize_ts q))). normalize_ts q < of_int (fst e)) \<and>
       daily (date_of (normalize_ts q) + 1) = [] \<longrightarrow>
      get_next_funding_rate daily q = (None, None))"
proof -
  define t where "t = normalize_ts q"
  define d where "d = date_of t"
  have g: "get_next_funding_rate daily q =
     (case scan_next t (daily d) (None, None) of (next_ts, next_rate) \<Rightarrow>
        case (if next_ts = None then scan_min (daily (d + 1)) (next_ts, next_rate)
              else (next_ts, next_rate)) of (next_ts, next_rate) \<Rightarrow>
          if next_ts \<noteq> None then (next_ts, next_rate) else (None, None))"
    unfolding d_def t_def get_next_funding_rate_def Let_def by (rule refl)
  have c1: "\<exists>m r. get_next_funding_rate daily q = (Some m, Some r) \<and>
             (m, r) \<in> set (daily d) \<and> t < of_int m \<and>
             (\<forall>e \<in> set (daily d). t < of_int (fst e) \<longrightarrow> m \<le> fst e)"
    if "\<exists>e \<in> set (daily d). t < of_int (fst e)"
    using scan_next_none(2)[OF that] by (auto simp: g)
  have n: "scan_next t (daily d) (None, None) = (None, None)"
    if "\<not> (\<exists>e \<in> set (daily d). t < of_int (fst e))"
    using scan_next_none(1)[of "daily d" t] that by blast
  have c2: "\<exists>m r. get_next_funding_rate daily q = (Some m, Some r) \<and>
             (m, r) \<in> set (daily (d + 1)) \<and> (\<forall>e \<in> set (daily (d + 1)). m \<le> fst e)"
    if "\<not> (\<exists>e \<in> set (daily d). t < of_int (fst e))" "daily (d + 1) \<noteq> []"
    using scan_min_none[OF that(2)] n[OF that(1)] by (auto simp: g)
  have c3: "get_next_funding_rate daily q = (None, None)"
    if "\<not> (\<exists>e \<in> set (daily d). t < of_int (fst e))" "daily (d + 1) = []"
    using n[OF that(1)] that(2) by (simp add: g)
  from c1 c2 c3 show ?thesis unfolding t_def d_def by blast
qed

theorem next_lookup_one_day_ahead_witness:
  "get_next_funding_rate settle_daily 3600 = (Some 57600, Some (1 / 10000))
   \<and> get_next_funding_rate sparse_daily 90000 = (Some 200000, Some (1 / 10000))
   \<and> get_next_funding_rate sparse_daily 0 = (None, None)"
proof -
  have n: "normalize_ts 3600 = 3600" "normalize_ts 90000 = 90000" "normalize_ts 0 = 0"
    by (simp_all add: normalize_ts_def)
  have d: "date_of 3600 = 0" "date_of 90000 = 1" "date_of 0 = 0"
    by code_simp+
  have a: "\<exists>e \<in> set (settle_daily (date_of (normalize_ts 3600))).
             normalize_ts 3600 < of_int (fst e)"
    by (simp add: n d settle_daily_def)
  have b: "\<not> (\<exists>e \<in> set (sparse_daily (date_of (normalize_ts 90000))).
             normalize_ts 90000 < of_int (fst e)) \<and>
           sparse_daily (date_of (normalize_ts 90000) + 1) \<noteq> []"
    by (simp add: n d sparse_daily_def)
  have c: "\<not> (\<exists>e \<in> set (sparse_daily (date_of (normalize_ts 0))).
             normalize_ts 0 < of_int (fst e)) \<and>
           sparse_daily (date_of (normalize_ts 0) + 1) = []"
    by (simp add: n d sparse_daily_def)
  from next_lookup_one_day_ahead[of settle_daily 3600] a
  have 1: "get_next_funding_rate settle_daily 3600 = (Some 57600, Some (1 / 10000))"
    by (auto simp: n d settle_daily_def)
  from next_lookup_one_day_ahead[of sparse_daily 90000] b
  have 2: "get_next_funding_rate sparse_daily 90000 = (Some 200000, Some (1 / 10000))"
    by (auto simp: n d sparse_daily_def)
  from next_lookup_one_day_ahead[of sparse_daily 0] c
  have 3: "get_next_funding_rate sparse_daily 0 = (None, None)"
    by blast
  from 1 2 3 show ?thesis by simp
qed

section \<open>Funding accrual\<close>

lemma accrue_all_map:
  "accrue_all ts r ps st =
     (map (\<lambda>p. if entry_time p < ts then add_funding_payment p ts (funding_fee_of p r) else p) ps,
      st\<lparr>capital := capital st + (\<Sum>p\<leftarrow>ps. if entry_time p < ts then funding_fee_of p r else 0),
         total_funding_fee := total_funding_fee st
            + (\<Sum>p\<leftarrow>ps. if entry_time p < ts then funding_fee_of p r else 0)\<rparr>)"
proof (induction ps arbitrary: st)
  case Nil
  show ?case by simp
next
  case (Cons p ps)
  show ?case
    by (simp add: accrue_position_def Let_def Cons.IH add.assoc)
qed

lemma process_funding_fees_entries:
  "entries_positive st \<Longrightarrow> entries_positive (process_funding_fees daily st ts)"
  by (auto simp: entries_positive_def process_funding_fees_def accrue_all_map Let_def
                 add_funding_payment_def split: prod.splits option.splits)

lemma update_next_funding_time_entries:
  "entries_positive st \<Longrightarrow> entries_positive (update_next_funding_time daily st ts)"
  by (simp add: entries_positive_def update_next_funding_time_def Let_def)

lemma settle_close_entries:
  "settle_close st p a b = (tr, st') \<Longrightarrow> entries_positive st \<Longrightarrow> entries_positive st'"
  by (auto simp: entries_positive_def settle_close_def Let_def dest: notin_set_remove1)

lemma close_position_entries:
  "close_position st p a b = (tr, st') \<Longrightarrow> entries_positive st \<Longrightarrow> entries_positive st'"
  by (auto simp: close_position_def entries_positive_def split: prod.splits if_splits
           dest!: settle_close_entries)

lemma exit_loop_entries:
  "exit_loop daily data a b ps (trades, st) = Inr (trades', st') \<Longrightarrow>
     entries_positive st \<Longrightarrow> entries_positive st'"
proof (induction ps arbitrary: trades st)
  case Nil
  then show ?case by simp
next
  case (Cons p ps)
  show ?case
  proof (cases "get_exit_signal daily data (position_type p)")
    case (Inl e)
    with Cons.prems show ?thesis by (simp add: bind_def)
  next
    case (Inr sg)
    show ?thesis
    proof (cases "sg > 0")
      case False
      with Inr Cons.prems have "exit_loop daily data a b ps (trades, st) = Inr (trades', st')"
        by (simp add: bind_def)
      from Cons.IH[OF this Cons.prems(2)] show ?thesis .
    next
      case True
      obtain tr st1 where c: "close_position st p a b = (tr, st1)"
        by (cases "close_position st p a b")
      with True Inr Cons.prems
      have "exit_loop daily data a b ps (trades @ [tr], st1) = Inr (trades', st')"
        by (simp add: bind_def)
      from Cons.IH[OF this close_position_entries[OF c Cons.prems(2)]] show ?thesis .
    qed
  qed
qed

lemma entry_step_entries:
  "entry_step daily data ts a b (trades, st) = Inr (trades', st') \<Longrightarrow>
     entries_positive st \<Longrightarrow> entries_positive st'"
  by (auto simp: entry_step_def open_position_def bind_def Let_def entries_positive_def
           split: sum.splits if_splits prod.splits)

lemma process_data_entries:
  assumes "process_data daily st data = Inr (trades, st')" "entries_positive st"
  shows "entries_positive st'"
proof (cases "data = []")
  case True
  with assms show ?thesis by (simp add: process_data_def)
next
  case False
  let ?ts = "exchange_timestamp (last data)"
  let ?st2 = "update_next_funding_time daily (process_funding_fees daily st ?ts) ?ts"
  have inv2: "entries_positive ?st2"
    using assms(2) by (simp add: update_next_funding_time_entries process_funding_fees_entries)
  from assms(1) False obtain trades1 st3 where
    e: "exit_loop daily data (bar_swap_price (last data)) (bar_spot_price (last data))
          (positions ?st2) ([], ?st2) = Inr (trades1, st3)"
    and f: "entry_step daily data ?ts (bar_swap_price (last data)) (bar_spot_price (last data))
          (trades1, st3) = Inr (trades, st')"
    by (auto simp: process_data_def Let_def bind_def split: sum.splits)
  from entry_step_entries[OF f exit_loop_entries[OF e inv2]] show ?thesis .
qed

lemma liquidation_loop_entries:
  "liquidation_loop t a b ps (tr, st) = (tr', st') \<Longrightarrow> entries_positive st
     \<Longrightarrow> entries_positive st'"
  by (induction ps arbitrary: tr st)
     (auto split: prod.splits dest: settle_close_entries)

lemma force_liquidate_entries:
  "force_liquidate df (tr, st) = (tr', st') \<Longrightarrow> entries_positive st
     \<Longrightarrow> entries_positive st'"
  by (auto simp: force_liquidate_def Let_def split: if_splits dest: liquidation_loop_entries)

lemma reachable_entries: "reachable daily st \<Longrightarrow> entries_positive st"
proof (induction rule: reachable.induct)
  case (reach_init cap maxp fr enabled)
  show ?case by (simp add: init_strategy_def entries_positive_def)
next
  case (reach_step st data trades st')
  then show ?case using process_data_entries by blast
next
  case (reach_liquidate st df tr tr' st')
  then show ?case using force_liquidate_entries by blast
qed

lemma no_accrual:
  "\<forall>p \<in> set ps. \<not> entry_time p < ts \<Longrightarrow>
     map (\<lambda>p. if entry_time p < ts
                then p\<lparr>funding_payments := funding_payments p @ [(ts, funding_fee_of p r)]\<rparr>
                else p) ps = ps
     \<and> (\<Sum>p\<leftarrow>ps. if entry_time p < ts then funding_fee_of p r else 0) = 0"
  by (induction ps) auto

lemma accrue_all_explicit:
  "accrue_all ts r ps st =
     (map (\<lambda>p. if entry_time p < ts
                then p\<lparr>funding_payments := funding_payments p @ [(ts, funding_fee_of p r)]\<rparr>
                else p) ps,
      st\<lparr>capital := capital st + (\<Sum>p\<leftarrow>ps. if entry_time p < ts then funding_fee_of p r else 0),
         total_funding_fee := total_funding_fee st
            + (\<Sum>p\<leftarrow>ps. if entry_time p < ts then funding_fee_of p r else 0)\<rparr>)"
  unfolding accrue_all_map add_funding_payment_def by (rule refl)

lemma step_bar1_settle:
  "process_data settle_daily ex_strategy [bar1]
     = Inr ([(Open, Short, 50 / 301, 30100, 30000)], st_short_f)"
  by code_simp

lemma reachable_st_short_f: "reachable settle_daily st_short_f"
  by (rule reach_step[OF reach_init step_bar1_settle[unfolded ex_strategy_def]])

text \<open>
  Claim C7.  With funding enabled, in every reachable ledger state: when the previous
  funding event's timestamp equals the bar's timestamp, \<open>process_funding_fees\<close> gives
  every open position opened strictly before it one payment, \<open>- swap_price * size * rate\<close>
  for a long and \<open>swap_price * size * rate\<close> for a short position (at the position's
  swap price), adds each payment to capital and to the funding total and appends it to
  the position's payment log, and changes nothing else; positions opened at or after
  the timestamp are left as they are.  When there is no previous event or its timestamp
  differs from the bar's, the state is unchanged.
\<close>

theorem funding_accrual_at_settlement:
  assumes "reachable daily st" and "funding_fee_enabled st"
      and "get_prev_funding_rate daily ts = (prev_ts, prev_rate)"
  shows "(prev_ts = Some pts \<and> prev_rate = Some rate \<and> of_int pts = ts \<longrightarrow>
            process_funding_fees daily st ts =
              st\<lparr>capital := capital st
                    + (\<Sum>p\<leftarrow>positions st. if entry_time p < ts then funding_fee_of p rate else 0),
                 total_funding_fee := total_funding_fee st
                    + (\<Sum>p\<leftarrow>positions st. if entry_time p < ts then funding_fee_of p rate else 0),
                 positions := map (\<lambda>p. if entry_time p < ts
                      then p\<lparr>funding_payments := funding_payments p @ [(ts, funding_fee_of p rate)]\<rparr>
                      else p) (positions st)\<rparr>)
       \<and> (prev_ts = None \<or> (\<exists>other. prev_ts = Some other \<and> of_int other \<noteq> ts) \<longrightarrow>
            process_funding_fees daily st ts = st)
       \<and> funding_fee_of q rate = (if position_type q = Long then - (swap_price q * amount q * rate)
                                  else swap_price q * amount q * rate)"
proof (intro conjI impI)
  show "funding_fee_of q rate = (if position_type q = Long then - (swap_price q * amount q * rate)
                                  else swap_price q * amount q * rate)"
    by (simp add: funding_fee_of_def)
next
  assume "prev_ts = None \<or> (\<exists>other. prev_ts = Some other \<and> of_int other \<noteq> ts)"
  with assms(3) show "process_funding_fees daily st ts = st"
    by (auto simp: process_funding_fees_def Let_def split: option.splits)
next
  assume a: "prev_ts = Some pts \<and> prev_rate = Some rate \<and> of_int pts = ts"
  let ?S = "\<Sum>p\<leftarrow>positions st. if entry_time p < ts then funding_fee_of p rate else 0"
  let ?f = "\<lambda>p. if entry_time p < ts
                      then p\<lparr>funding_payments := funding_payments p @ [(ts, funding_fee_of p rate)]\<rparr>
                      else p"
  let ?R = "st\<lparr>capital := capital st + ?S, total_funding_fee := total_funding_fee st + ?S,
                 positions := map ?f (positions st)\<rparr>"
  have inv: "entries_positive st" by (rule reachable_entries[OF assms(1)])
  show "process_funding_fees daily st ts = ?R"
  proof (cases "positions st = []")
    case True
    then show ?thesis by (simp add: process_funding_fees_def)
  next
    case False
    show ?thesis
    proof (cases "pts = 0")
      case False
      with \<open>positions st \<noteq> []\<close> assms(2,3) a show ?thesis
        by (simp add: process_funding_fees_def accrue_all_explicit)
    next
      case True
      with a have "ts = 0" by auto
      with inv have "\<forall>p \<in> set (positions st). \<not> entry_time p < ts"
        by (auto simp: entries_positive_def)
      from no_accrual[OF this, of rate]
      have "map ?f (positions st) = positions st" "?S = 0"
        by simp_all
      then have "?R = st" by simp
      moreover have "process_funding_fees daily st ts = st"
        using True a assms(3) by (simp add: process_funding_fees_def)
      ultimately show ?thesis by simp
    qed
  qed
qed

theorem funding_accrual_at_settlement_witness:
  "reachable settle_daily st_short_f \<and> funding_fee_enabled st_short_f
   \<and> get_prev_funding_rate settle_daily 57600 = (Some 57600, Some (1 / 10000))
   \<and> process_funding_fees settle_daily st_short_f 57600
       = st_short_f\<lparr>capital := capital st_short_f + 1 / 2,
                     total_funding_fee := total_funding_fee st_short_f + 1 / 2,
                     positions := [pos1\<lparr>funding_payments := [(57600, 1 / 2)]\<rparr>]\<rparr>
   \<and> get_prev_funding_rate settle_daily 7200 = (None, None)
   \<and> process_funding_fees settle_daily st_short_f 7200 = st_short_f"
proof -
  have en: "funding_fee_enabled st_short_f" by code_simp
  have p1: "get_prev_funding_rate settle_daily 57600 = (Some 57600, Some (1 / 10000))"
    by code_simp
  have p2: "get_prev_funding_rate settle_daily 7200 = (None, None)"
    by code_simp
  have ps: "positions st_short_f = [pos1]" by code_simp
  have e1: "entry_time pos1 < 57600" by code_simp
  have f1: "funding_fee_of pos1 (1 / 10000) = 1 / 2" by code_simp
  have fp: "funding_payments pos1 = []" by code_simp
  from funding_accrual_at_settlement[OF reachable_st_short_f en p1, of 57600 "1 / 10000"]
  have a: "process_funding_fees settle_daily st_short_f 57600
       = st_short_f\<lparr>capital := capital st_short_f + 1 / 2,
                     total_funding_fee := total_funding_fee st_short_f + 1 / 2,
                     positions := [pos1\<lparr>funding_payments := [(57600, 1 / 2)]\<rparr>]\<rparr>"
    by (simp add: ps e1 f1 fp)
  from funding_accrual_at_settlement[OF reachable_st_short_f en p2]
  have b: "process_funding_fees settle_daily st_short_f 7200 = st_short_f"
    by simp
  from reachable_st_short_f en p1 p2 a b show ?thesis by simp
qed

section \<open>The synchronizer\<close>

lemma read_next_valid_ahead:
  "read_next_valid dt e s = Inr (r, s') \<Longrightarrow>
     (\<forall>t. r = Some t \<longrightarrow> valid_ahead dt s = t # valid_ahead dt s' \<and> timestamp t \<le> e) \<and>
     (r = None \<longrightarrow> valid_ahead dt s = [] \<or>
                (\<exists>t. valid_ahead dt s = t # valid_ahead dt s' \<and> e < timestamp t))"
proof (induction dt e s rule: read_next_valid.induct)
  case (1 dt end_t s)
  note simps = read_next_valid.simps[of dt end_t s]
  show ?case
  proof (cases "fetch s")
    case (Inl a)
    with "1.prems" show ?thesis by (simp add: simps)
  next
    case (Inr o1)
    show ?thesis
    proof (cases o1)
      case None
      with Inr "1.prems" fetch_None[of s] show ?thesis
        by (auto simp: simps valid_ahead_def)
    next
      case (Some a)
      obtain data s1 where a: "a = (data, s1)" by (cases a)
      have rem: "remaining s = data # remaining s1"
        using fetch_remaining Inr Some a by fastforce
      show ?thesis
      proof (cases "accepts dt data")
        case True
        then have va: "valid_ahead dt s = data # valid_ahead dt s1"
          using rem by (simp add: valid_ahead_def)
        from True "1.prems" Inr Some a
        have "s' = s1 \<and> (if timestamp data > end_t then r = None else r = Some data)"
          by (auto simp: accepts_def simps split: if_splits)
        with va show ?thesis by (auto split: if_splits)
      next
        case False
        then have va: "valid_ahead dt s = valid_ahead dt s1"
          using rem by (simp add: valid_ahead_def)
        from False have "read_next_valid dt end_t s = read_next_valid dt end_t s1"
          using Inr Some a by (auto simp: accepts_def simps)
        with "1.prems" have r1: "read_next_valid dt end_t s1 = Inr (r, s')" by simp
        from False have na: "\<not> (dt = ''Depth'' \<and> kind data = Depth)"
          "\<not> (dt = ''Fast'' \<and> kind data = Fast)"
          by (auto simp: accepts_def)
        from "1.IH"[OF Inr Some a[symmetric] na r1] va show ?thesis by simp
      qed
    qed
  qed
qed

lemma read_next_valid_swap_ahead:
  assumes "read_next_valid_swap p = Inr (r, p')"
  shows "data_type p' = data_type p \<and> end_ts p' = end_ts p \<and> spot p' = spot p
         \<and> current_swap p' = current_swap p
         \<and> (\<forall>t. r = Some t \<longrightarrow>
               valid_ahead (data_type p) (swap p) = t # valid_ahead (data_type p) (swap p')
               \<and> timestamp t \<le> end_ts p)
         \<and> (r = None \<longrightarrow> valid_ahead (data_type p) (swap p) = [] \<or>
                 (\<exists>t. valid_ahead (data_type p) (swap p) = t # valid_ahead (data_type p) (swap p')
                       \<and> end_ts p < timestamp t))"
proof -
  from assms obtain s' where
    r: "read_next_valid (data_type p) (end_ts p) (swap p) = Inr (r, s')" and p': "p' = p\<lparr>swap := s'\<rparr>"
    by (auto simp: read_next_valid_swap_def bind_def split: sum.splits prod.splits)
  from read_next_valid_ahead[OF r] p' show ?thesis by simp
qed

lemma read_next_valid_spot_ahead:
  assumes "read_next_valid_spot p = Inr (Some t, p')"
  shows "data_type p' = data_type p \<and> end_ts p' = end_ts p \<and> swap p' = swap p
         \<and> current_swap p' = current_swap p
         \<and> spot_ahead p = t # spot_ahead p' \<and> timestamp t \<le> end_ts p"
proof -
  from assms obtain s' where
    r: "read_next_valid (data_type p) (end_ts p) (spot p) = Inr (Some t, s')"
    and p': "p' = p\<lparr>spot := s'\<rparr>"
    by (auto simp: read_next_valid_spot_def bind_def split: sum.splits prod.splits)
  from read_next_valid_ahead[OF r] p' show ?thesis by (simp add: spot_ahead_def)
qed

lemma swap_loop_stop:
  "current_swap p = None \<Longrightarrow> swap_loop sp b p = Inr (b, p)"
  "current_swap p = Some c \<Longrightarrow> \<not> timestamp c \<le> timestamp sp \<Longrightarrow> swap_loop sp b p = Inr (b, p)"
  by (simp_all add: swap_loop.simps)

lemma swap_loop_sorted:
  "swap_loop sp b p = Inr (r, p') \<Longrightarrow> current_swap p = Some c \<Longrightarrow>
   timestamp c \<le> timestamp sp \<Longrightarrow> timestamp sp \<le> end_ts p \<Longrightarrow>
   sorted (map timestamp (swap_ahead p)) \<Longrightarrow>
   \<exists>sw before after. r = Some sw \<and> swap_ahead p = before @ sw # after \<and>
      timestamp sw \<le> timestamp sp \<and> (\<forall>t \<in> set after. timestamp sp < timestamp t) \<and>
      spot p' = spot p \<and> data_type p' = data_type p"
proof (induction sp b p arbitrary: c rule: swap_loop.induct)
  case (1 sp b p)
  note simps = swap_loop.simps[of sp b p]
  from "1.prems"(1,2,3) obtain nxt p1 where
    rd: "read_next_valid_swap p = Inr (nxt, p1)"
    and lp: "swap_loop sp (Some c) (p1\<lparr>current_swap := nxt\<rparr>) = Inr (r, p')"
    by (auto simp: simps split: sum.splits prod.splits)
  note ah = read_next_valid_swap_ahead[OF rd]
  let ?p1 = "p1\<lparr>current_swap := nxt\<rparr>"
  have sa: "swap_ahead p = c # valid_ahead (data_type p) (swap p)"
    using "1.prems"(2) by (simp add: swap_ahead_def)
  show ?case
  proof (cases nxt)
    case None
    then have res: "r = Some c" "p' = ?p1"
      using lp swap_loop_stop(1)[of ?p1 sp "Some c"] by simp_all
    have "\<forall>t \<in> set (valid_ahead (data_type p) (swap p)). timestamp sp < timestamp t"
    proof (cases "valid_ahead (data_type p) (swap p)")
      case Nil
      then show ?thesis by simp
    next
      case (Cons t rest)
      with ah None have "end_ts p < timestamp t" by auto
      with "1.prems"(4) have "timestamp sp < timestamp t" by simp
      moreover have "\<forall>x \<in> set rest. timestamp t \<le> timestamp x"
        using "1.prems"(5) sa Cons by simp
      ultimately show ?thesis using Cons by auto
    qed
    with res sa "1.prems"(3) ah show ?thesis
      by (intro exI[of _ c] exI[of _ "[]"] exI[of _ "valid_ahead (data_type p) (swap p)"]) simp
  next
    case (Some n)
    with ah have va: "valid_ahead (data_type p) (swap p) = n # valid_ahead (data_type p) (swap p1)"
      by simp
    have sa1: "swap_ahead ?p1 = n # valid_ahead (data_type p) (swap p1)"
      using Some ah by (simp add: swap_ahead_def)
    show ?thesis
    proof (cases "timestamp n \<le> timestamp sp")
      case True
      have srt: "sorted (map timestamp (swap_ahead ?p1))"
        using "1.prems"(5) sa va sa1 by simp
      have "\<exists>sw before after. r = Some sw \<and> swap_ahead ?p1 = before @ sw # after \<and>
              timestamp sw \<le> timestamp sp \<and> (\<forall>t \<in> set after. timestamp sp < timestamp t) \<and>
              spot p' = spot ?p1 \<and> data_type p' = data_type ?p1"
        using "1.IH"[OF "1.prems"(2) "1.prems"(3) rd refl lp, of n] Some True "1.prems"(4) ah srt
        by simp
      then obtain sw before after where
        "r = Some sw" "swap_ahead ?p1 = before @ sw # after" "timestamp sw \<le> timestamp sp"
        "\<forall>t \<in> set after. timestamp sp < timestamp t" "spot p' = spot ?p1"
        "data_type p' = data_type ?p1"
        by blast
      with sa va sa1 ah show ?thesis
        by (intro exI[of _ sw] exI[of _ "c # before"] exI[of _ after]) simp
    next
      case False
      then have res: "r = Some c" "p' = ?p1"
        using lp Some swap_loop_stop(2)[of ?p1 n sp "Some c"] by simp_all
      have "\<forall>x \<in> set (valid_ahead (data_type p) (swap p1)). timestamp n \<le> timestamp x"
        using "1.prems"(5) sa va by simp
      with False have "\<forall>t \<in> set (valid_ahead (data_type p) (swap p)). timestamp sp < timestamp t"
        using va by auto
      with res sa "1.prems"(3) ah show ?thesis
        by (intro exI[of _ c] exI[of _ "[]"] exI[of _ "valid_ahead (data_type p) (swap p)"]) simp
    qed
  qed
qed


lemma read_next_aligned:
  "read_next p = Inr (Some (sw, sp), p') \<Longrightarrow> sorted (map timestamp (swap_ahead p)) \<Longrightarrow>
   timestamp sw \<le> timestamp sp \<and>
   (\<exists>before after. swap_ahead p = before @ sw # after \<and>
       (\<forall>t \<in> set after. timestamp sp < timestamp t)) \<and>
   (\<exists>skipped. spot_ahead p = skipped @ sp # spot_ahead p' \<and>
       (\<forall>x \<in> set skipped. \<forall>t \<in> set (swap_ahead p). timestamp x < timestamp t))"
proof (induction p rule: read_next.induct)
  case (1 p)
  note simps = read_next.simps[of p]
  from "1.prems"(1) obtain x p1 where rs: "read_next_valid_spot p = Inr (Some x, p1)"
    by (auto simp: simps split: sum.splits prod.splits option.splits)
  note sa = read_next_valid_spot_ahead[OF rs]
  have same: "swap_ahead p1 = swap_ahead p"
    using sa by (simp add: swap_ahead_def split: option.splits)
  show ?case
  proof (cases "current_swap p1")
    case None
    with rs "1.prems"(1) have rn: "read_next p1 = Inr (Some (sw, sp), p')" by (simp add: simps)
    have "swap_ahead p1 = []" using None by (simp add: swap_ahead_def)
    with "1.IH"(1)[OF rs refl refl None rn] "1.prems"(2) same show ?thesis by simp
  next
    case (Some c)
    have hd: "swap_ahead p = c # valid_ahead (data_type p) (swap p)"
      using Some sa by (simp add: swap_ahead_def)
    show ?thesis
    proof (cases "timestamp c > timestamp x")
      case True
      with rs Some "1.prems"(1) have rn: "read_next p1 = Inr (Some (sw, sp), p')"
        by (simp add: simps)
      from "1.IH"(2)[OF rs refl refl Some True rn] "1.prems"(2) same
      obtain before after skipped where
        le: "timestamp sw \<le> timestamp sp"
        and sw: "swap_ahead p = before @ sw # after" "\<forall>t \<in> set after. timestamp sp < timestamp t"
        and sk: "spot_ahead p1 = skipped @ sp # spot_ahead p'"
           "\<forall>x \<in> set skipped. \<forall>t \<in> set (swap_ahead p). timestamp x < timestamp t"
        by auto
      have "\<forall>t \<in> set (swap_ahead p). timestamp c \<le> timestamp t"
        using "1.prems"(2) hd by auto
      with True have "\<forall>t \<in> set (swap_ahead p). timestamp x < timestamp t" by fastforce
      with sk sa have "spot_ahead p = (x # skipped) @ sp # spot_ahead p' \<and>
          (\<forall>y \<in> set (x # skipped). \<forall>t \<in> set (swap_ahead p). timestamp y < timestamp t)"
        by simp
      with le sw show ?thesis by blast
    next
      case False
      then have cx: "timestamp c \<le> timestamp x" by simp
      from rs Some False "1.prems"(1) obtain bo p2 where
        sl: "swap_loop x None p1 = Inr (bo, p2)"
        by (auto simp: simps split: sum.splits prod.splits option.splits)
      have "timestamp x \<le> end_ts p1" using sa by simp
      from swap_loop_sorted[OF sl Some cx this] "1.prems"(2) same
      obtain b before after where
        bo: "bo = Some b" and sw: "swap_ahead p = before @ b # after"
        and le: "timestamp b \<le> timestamp x"
        and af: "\<forall>t \<in> set after. timestamp x < timestamp t"
        and sp2: "spot p2 = spot p1" "data_type p2 = data_type p1"
        by auto
      from rs Some False sl bo "1.prems"(1) have res: "sw = b" "sp = x" "p' = p2"
        by (simp_all add: simps)
      have "spot_ahead p = [] @ sp # spot_ahead p'"
        using sa sp2 res by (simp add: spot_ahead_def)
      with res le af sw show ?thesis by fastforce
    qed
  qed
qed


lemma swap_loop_le:
  "swap_loop sp b p = Inr (Some sw, p') \<Longrightarrow>
   (\<forall>b'. b = Some b' \<longrightarrow> timestamp b' \<le> timestamp sp) \<Longrightarrow> timestamp sw \<le> timestamp sp"
proof (induction sp b p rule: swap_loop.induct)
  case (1 sp b p)
  note simps = swap_loop.simps[of sp b p]
  show ?case
  proof (cases "current_swap p")
    case None
    with "1.prems" show ?thesis by (simp add: simps)
  next
    case (Some c)
    show ?thesis
    proof (cases "timestamp c \<le> timestamp sp")
      case False
      with Some "1.prems" show ?thesis by (simp add: simps)
    next
      case True
      with Some "1.prems"(1) obtain nxt p1 where
        rd: "read_next_valid_swap p = Inr (nxt, p1)"
        and lp: "swap_loop sp (Some c) (p1\<lparr>current_swap := nxt\<rparr>) = Inr (Some sw, p')"
        by (auto simp: simps split: sum.splits prod.splits)
      from "1.IH"[OF Some True rd refl lp] True show ?thesis by simp
    qed
  qed
qed

lemma read_next_le:
  "read_next p = Inr (Some (sw, sp), p') \<Longrightarrow> timestamp sw \<le> timestamp sp"
proof (induction p rule: read_next.induct)
  case (1 p)
  note simps = read_next.simps[of p]
  from "1.prems"(1) obtain x p1 where rs: "read_next_valid_spot p = Inr (Some x, p1)"
    by (auto simp: simps split: sum.splits prod.splits option.splits)
  show ?case
  proof (cases "current_swap p1")
    case None
    with rs "1.prems"(1) have rn: "read_next p1 = Inr (Some (sw, sp), p')" by (simp add: simps)
    from "1.IH"(1)[OF rs refl refl None rn] show ?thesis .
  next
    case (Some c)
    show ?thesis
    proof (cases "timestamp c > timestamp x")
      case True
      with rs Some "1.prems"(1) have rn: "read_next p1 = Inr (Some (sw, sp), p')"
        by (simp add: simps)
      from "1.IH"(2)[OF rs refl refl Some True rn] show ?thesis .
    next
      case False
      show ?thesis
      proof (cases "swap_loop x None p1")
        case (Inl e)
        with rs Some False "1.prems"(1) show ?thesis by (simp add: simps)
      next
        case (Inr a)
        obtain bo p2 where a: "a = (bo, p2)" by (cases a)
        show ?thesis
        proof (cases bo)
          case None
          with rs Some False Inr a "1.prems"(1)
          have rn: "read_next p2 = Inr (Some (sw, sp), p')" by (simp add: simps)
          from "1.IH"(3)[OF rs refl refl Some False Inr a[symmetric] None rn] show ?thesis .
        next
          case (Some b)
          with rs \<open>current_swap p1 = Some c\<close> False Inr a "1.prems"(1)
          have "sw = b" "sp = x" by (simp_all add: simps)
          with swap_loop_le[of x None p1 b p2] Inr a Some show ?thesis by simp
        qed
      qed
    qed
  qed
qed

lemma read_next_ex: "read_next ex_provider = Inr (Some (mk_tick 2, mk_tick 3), ex_provider1)"
  by code_simp

text \<open>
  Claim C1.  Every pair \<open>read_next\<close> emits has a swap tick no later than its spot tick.
  When the swap ticks still to come are ordered by timestamp, the emitted swap tick is
  the most recent one within that bound: every swap tick after it in arrival order is
  later than the spot tick.  The spot ticks the call consumed before the emitted one
  were skipped because every swap tick still to come was later than they are.
\<close>

theorem hold_last_value:
  assumes "read_next p = Inr (Some (sw, sp), p')"
  shows "timestamp sw \<le> timestamp sp \<and>
         (sorted (map timestamp (swap_ahead p)) \<longrightarrow>
            (\<exists>before after. swap_ahead p = before @ sw # after \<and>
                (\<forall>t \<in> set after. timestamp sp < timestamp t)) \<and>
            (\<exists>skipped. spot_ahead p = skipped @ sp # spot_ahead p' \<and>
                (\<forall>x \<in> set skipped. \<forall>t \<in> set (swap_ahead p). timestamp x < timestamp t)))"
  using read_next_le[OF assms] read_next_aligned[OF assms] by blast

theorem hold_last_value_witness:
  "read_next ex_provider = Inr (Some (mk_tick 2, mk_tick 3), ex_provider1)
   \<and> sorted (map timestamp (swap_ahead ex_provider))
   \<and> swap_ahead ex_provider = [mk_tick 1] @ mk_tick 2 # [mk_tick 10, mk_tick 12]
   \<and> spot_ahead ex_provider = [mk_tick 0] @ mk_tick 3 # spot_ahead ex_provider1
   \<and> timestamp (mk_tick 2) \<le> timestamp (mk_tick 3)"
proof -
  have s: "sorted (map timestamp (swap_ahead ex_provider))" by code_simp
  have a: "swap_ahead ex_provider = [mk_tick 1] @ mk_tick 2 # [mk_tick 10, mk_tick 12]"
    by code_simp
  have b: "spot_ahead ex_provider = [mk_tick 0] @ mk_tick 3 # spot_ahead ex_provider1"
    by code_simp
  from hold_last_value[OF read_next_ex] read_next_ex s a b show ?thesis by simp
qed

section \<open>The interval resampler\<close>

lemma interval_loop_emits:
  "interval_loop tg p = Inr (Some pr, p') \<Longrightarrow>
     tg \<le> timestamp (fst pr) \<and> last_timestamp p' = Some (timestamp (fst pr))"
proof (induction tg p rule: interval_loop.induct)
  case (1 tg p)
  note simps = interval_loop.simps[of tg p]
  show ?case
  proof (cases "read_next p")
    case (Inl e)
    with "1.prems" show ?thesis by (simp add: simps)
  next
    case (Inr a)
    obtain ro p1 where a: "a = (ro, p1)" by (cases a)
    show ?thesis
    proof (cases ro)
      case None
      with Inr a "1.prems" show ?thesis by (simp add: simps)
    next
      case (Some q)
      obtain sw sp where q: "q = (sw, sp)" by (cases q)
      show ?thesis
      proof (cases "timestamp sw \<ge> tg")
        case True
        with Inr a Some q "1.prems" show ?thesis by (auto simp: simps)
      next
        case False
        with Inr a Some q "1.prems" have "interval_loop tg p1 = Inr (Some pr, p')"
          by (simp add: simps)
        from "1.IH"[OF Inr a[symmetric] Some q[symmetric] False this] show ?thesis .
      qed
    qed
  qed
qed

lemma read_next_depth_by_interval_emits:
  assumes "read_next_depth_by_interval p ms = Inr (Some pr, p')"
  shows "last_timestamp p' = Some (timestamp (fst pr)) \<and>
         (\<forall>lt. last_timestamp p = Some lt \<longrightarrow> lt + ms / 1000 \<le> timestamp (fst pr))"
proof (cases "last_timestamp p")
  case None
  with assms show ?thesis
    by (auto simp: read_next_depth_by_interval_def
             split: if_splits sum.splits prod.splits option.splits)
next
  case (Some lt)
  with assms have "interval_loop (lt + ms / 1000) p = Inr (Some pr, p')"
    by (simp add: read_next_depth_by_interval_def Let_def split: if_splits)
  from interval_loop_emits[OF this] Some show ?thesis by simp
qed

lemma read_all_loop_spacing:
  "read_all_loop ms p rows = Inr (out, p') \<Longrightarrow>
   successively (\<lambda>a b. timestamp (fst a) + ms / 1000 \<le> timestamp (fst b)) rows \<Longrightarrow>
   (rows \<noteq> [] \<longrightarrow> last_timestamp p = Some (timestamp (fst (last rows)))) \<Longrightarrow>
   successively (\<lambda>a b. timestamp (fst a) + ms / 1000 \<le> timestamp (fst b)) out"
proof (induction ms p rows rule: read_all_loop.induct)
  case (1 ms p rows)
  note simps = read_all_loop.simps[of ms p rows]
  show ?case
  proof (cases "read_next_depth_by_interval p ms")
    case (Inl e)
    with "1.prems" show ?thesis by (simp add: simps)
  next
    case (Inr a)
    obtain ro p1 where a: "a = (ro, p1)" by (cases a)
    show ?thesis
    proof (cases ro)
      case None
      with Inr a "1.prems" show ?thesis by (simp add: simps)
    next
      case (Some pr)
      with Inr a "1.prems"(1) have lp: "read_all_loop ms p1 (rows @ [pr]) = Inr (out, p')"
        by (simp add: simps)
      from Inr a Some have em: "read_next_depth_by_interval p ms = Inr (Some pr, p1)" by simp
      note e = read_next_depth_by_interval_emits[OF em]
      have s: "successively (\<lambda>a b. timestamp (fst a) + ms / 1000 \<le> timestamp (fst b)) (rows @ [pr])"
        using "1.prems"(2,3) e by (auto simp: successively_append_iff)
      from "1.IH"[OF Inr a[symmetric] Some lp s] e show ?thesis by simp
    qed
  qed
qed

lemma read_all_ex:
  "read_all_depth_by_interval interval_provider 1000
     = Inr ([(mk_tick 0, mk_tick (9 / 10)), (mk_tick 1, mk_tick 1)], interval_provider_end)"
  by code_simp

text \<open>
  Claim C2, as stated, over the spot timestamps of the emitted bars: with an interval of
  1000 ms the resampler emits the pairs (swap 0, spot 0.9) and (swap 1, spot 1), whose
  spot timestamps are 0.1 s apart.
\<close>

theorem resampled_spot_spacing_fails:
  "read_all_depth_by_interval interval_provider 1000
     = Inr ([(mk_tick 0, mk_tick (9 / 10)), (mk_tick 1, mk_tick 1)], interval_provider_end)
   \<and> \<not> (timestamp (snd (mk_tick 0, mk_tick (9 / 10))) + 1000 / 1000
          \<le> timestamp (snd (mk_tick 1, mk_tick 1)))"
  by code_simp

lemma interval_loop_pull:
  "interval_loop tg p = Inr (Some pr, p') \<Longrightarrow>
     \<exists>n dropped p1. pull (Suc n) p = Inr (dropped @ [pr], p1) \<and>
        p' = p1\<lparr>last_timestamp := Some (timestamp (fst pr))\<rparr> \<and>
        (\<forall>d \<in> set dropped. timestamp (fst d) < tg) \<and> tg \<le> timestamp (fst pr)"
proof (induction tg p rule: interval_loop.induct)
  case (1 tg p)
  note simps = interval_loop.simps[of tg p]
  show ?case
  proof (cases "read_next p")
    case (Inl e)
    with "1.prems" show ?thesis by (simp add: simps)
  next
    case (Inr a)
    obtain ro p1 where a: "a = (ro, p1)" by (cases a)
    show ?thesis
    proof (cases ro)
      case None
      with Inr a "1.prems" show ?thesis by (simp add: simps)
    next
      case (Some q)
      obtain sw sp where q: "q = (sw, sp)" by (cases q)
      show ?thesis
      proof (cases "timestamp sw \<ge> tg")
        case True
        with Inr a Some q "1.prems" have "pr = q" "p' = p1\<lparr>last_timestamp := Some (timestamp sw)\<rparr>"
          by (auto simp: simps)
        with Inr a Some q True show ?thesis
          by (intro exI[of _ 0] exI[of _ "[]"] exI[of _ p1]) simp
      next
        case False
        with Inr a Some q "1.prems" have "interval_loop tg p1 = Inr (Some pr, p')"
          by (simp add: simps)
        from "1.IH"[OF Inr a[symmetric] Some q[symmetric] False this]
        obtain n dropped p2 where
          pl: "pull (Suc n) p1 = Inr (dropped @ [pr], p2)"
          and rest: "p' = p2\<lparr>last_timestamp := Some (timestamp (fst pr))\<rparr>"
            "\<forall>d \<in> set dropped. timestamp (fst d) < tg" "tg \<le> timestamp (fst pr)"
          by blast
        have "pull (Suc (Suc n)) p = Inr ((q # dropped) @ [pr], p2)"
          using Inr a Some pl by (simp del: pull.simps add: pull.simps(2)[of "Suc n" p])
        with rest False q show ?thesis
          by (intro exI[of _ "Suc n"] exI[of _ "q # dropped"] exI[of _ p2]) auto
      qed
    qed
  qed
qed

lemma read_next_depth_by_interval_pull:
  assumes "read_next_depth_by_interval q ms = Inr (Some pr, q')"
  shows "\<exists>n dropped q1. pull (Suc n) q = Inr (dropped @ [pr], q1) \<and>
           q' = q1\<lparr>last_timestamp := Some (timestamp (fst pr))\<rparr> \<and>
           (case last_timestamp q of
              None \<Rightarrow> dropped = []
            | Some lt \<Rightarrow> (\<forall>d \<in> set dropped. timestamp (fst d) < lt + ms / 1000) \<and>
                         lt + ms / 1000 \<le> timestamp (fst pr))"
proof (cases "last_timestamp q")
  case None
  with assms obtain q1 where "read_next q = Inr (Some pr, q1)"
    "q' = q1\<lparr>last_timestamp := Some (timestamp (fst pr))\<rparr>"
    by (auto simp: read_next_depth_by_interval_def
             split: if_splits sum.splits prod.splits option.splits)
  with None show ?thesis
    by (intro exI[of _ 0] exI[of _ "[]"] exI[of _ q1]) simp
next
  case (Some lt)
  with assms have "interval_loop (lt + ms / 1000) q = Inr (Some pr, q')"
    by (simp add: read_next_depth_by_interval_def Let_def split: if_splits)
  from interval_loop_pull[OF this] Some show ?thesis by simp
qed

lemma interval_ex:
  "read_next_depth_by_interval ex_provider_later 5000
     = Inr (Some (mk_tick 10, mk_tick 11), ex_provider2)"
  by code_simp

lemma pull_ex:
  "pull 2 ex_provider_later
     = Inr ([(mk_tick 2, mk_tick 3), (mk_tick 10, mk_tick 11)], ex_provider2\<lparr>last_timestamp := Some 0\<rparr>)"
  by code_simp

text \<open>
  Claim C2, amended: the timestamp the resampler compares, records and writes into the
  row is the swap tick's.  In the sequence of rows \<open>read_all_depth_by_interval\<close>
  returns, consecutive swap timestamps satisfy \<open>t[i+1] >= t[i] + interval_ms / 1000\<close>;
  the first row is under no such bound.  Each call of \<open>read_next_depth_by_interval\<close>
  that emits a pair emits a pair of the synchronizer as it is: the first call the very
  next pair, a later call the first of the next pairs whose swap timestamp reaches
  \<open>last_timestamp + interval_ms / 1000\<close>; the pairs pulled before it are below that
  bound and are dropped.
\<close>

theorem resampled_swap_spacing:
  "(read_all_depth_by_interval p interval_ms = Inr (rows, p') \<longrightarrow>
      successively (\<lambda>a b. timestamp (fst a) + interval_ms / 1000 \<le> timestamp (fst b)) rows)
   \<and> (read_next_depth_by_interval q interval_ms = Inr (Some pr, q') \<longrightarrow>
      (\<exists>n dropped q1. pull (Suc n) q = Inr (dropped @ [pr], q1) \<and>
           q' = q1\<lparr>last_timestamp := Some (timestamp (fst pr))\<rparr> \<and>
           (case last_timestamp q of
              None \<Rightarrow> dropped = []
            | Some lt \<Rightarrow> (\<forall>d \<in> set dropped. timestamp (fst d) < lt + interval_ms / 1000) \<and>
                         lt + interval_ms / 1000 \<le> timestamp (fst pr))))"
proof (intro conjI impI)
  assume "read_all_depth_by_interval p interval_ms = Inr (rows, p')"
  then obtain c p2 where
    "read_all_loop interval_ms (p2\<lparr>current_swap := c, last_timestamp := None\<rparr>) [] = Inr (rows, p')"
    by (auto simp: read_all_depth_by_interval_def Let_def split: if_splits sum.splits prod.splits)
  from read_all_loop_spacing[OF this]
  show "successively (\<lambda>a b. timestamp (fst a) + interval_ms / 1000 \<le> timestamp (fst b)) rows"
    by simp
next
  assume "read_next_depth_by_interval q interval_ms = Inr (Some pr, q')"
  from read_next_depth_by_interval_pull[OF this]
  show "\<exists>n dropped q1. pull (Suc n) q = Inr (dropped @ [pr], q1) \<and>
           q' = q1\<lparr>last_timestamp := Some (timestamp (fst pr))\<rparr> \<and>
           (case last_timestamp q of
              None \<Rightarrow> dropped = []
            | Some lt \<Rightarrow> (\<forall>d \<in> set dropped. timestamp (fst d) < lt + interval_ms / 1000) \<and>
                         lt + interval_ms / 1000 \<le> timestamp (fst pr))" .
qed

theorem resampled_swap_spacing_witness:
  "read_all_depth_by_interval interval_provider 1000
     = Inr ([(mk_tick 0, mk_tick (9 / 10)), (mk_tick 1, mk_tick 1)], interval_provider_end)
   \<and> timestamp (mk_tick 0) + 1000 / 1000 \<le> timestamp (mk_tick 1)
   \<and> read_next_depth_by_interval ex_provider_later 5000
     = Inr (Some (mk_tick 10, mk_tick 11), ex_provider2)
   \<and> last_timestamp ex_provider_later = Some 0
   \<and> pull 2 ex_provider_later
     = Inr ([(mk_tick 2, mk_tick 3)] @ [(mk_tick 10, mk_tick 11)],
            ex_provider2\<lparr>last_timestamp := Some 0\<rparr>)
   \<and> (0 :: rat) + 5000 / 1000 \<le> timestamp (fst (mk_tick 10, mk_tick 11))"
proof -
  have l: "last_timestamp ex_provider_later = Some 0" by code_simp
  from resampled_swap_spacing[of interval_provider 1000
         "[(mk_tick 0, mk_tick (9 / 10)), (mk_tick 1, mk_tick 1)]" interval_provider_end
         ex_provider_later "(mk_tick 10, mk_tick 11)" ex_provider2]
       read_all_ex
  have a: "timestamp (mk_tick 0) + 1000 / 1000 \<le> timestamp (mk_tick 1)" by simp
  from resampled_swap_spacing[of interval_provider 5000 "[]" interval_provider
         ex_provider_later "(mk_tick 10, mk_tick 11)" ex_provider2]
       interval_ex l
  have b: "(0 :: rat) + 5000 / 1000 \<le> timestamp (fst (mk_tick 10, mk_tick 11))" by auto
  from read_all_ex interval_ex l pull_ex a b show ?thesis by simp
qed

end
